theory Spec2Isabelle
  imports Main
begin

section \<open>Data model\<close>

text \<open>
  The types of \<^verbatim>\<open>@/types\<close>. A stream is one of three kinds; its settings object may
  be null, and every settings field is optional. A settings value read back from the
  record store is either a primitive or an object that wraps the primitive in a
  \<^verbatim>\<open>value\<close> property, which may itself be null. Frequencies, indices and orders are
  integers: the settings form stores \<^verbatim>\<open>parseInt\<close> of a number input.
\<close>

datatype streamKind = Slideshow | SinglePhoto | Video

datatype itemKind = PhotoItem | VideoItem | CustomItem

datatype setting = Missing | Plain int | Boxed "int option"

record streamSettings =
  duration :: setting
  transition :: "string option"
  transitionSpeed :: "string option"
  frequency :: setting

record streamItem =
  item_id :: string
  stream_id :: string
  item_type :: itemKind
  content_url :: string
  item_order :: int

record streamWithItems =
  stream_ident :: string
  stream_type :: streamKind
  title :: string
  stream_order :: int
  settings :: "streamSettings option"
  items :: "streamItem list"

text \<open>\<^verbatim>\<open>EnhancedStreamItem\<close>: a stream item extended with its stream's settings and kind.\<close>

record enhancedStreamItem = streamItem +
  streamSettings :: "streamSettings option"
  streamType :: streamKind

text \<open>The bookkeeping entry the sequencer keeps for every interstitial item.\<close>

record frequencyItem =
  item :: enhancedStreamItem
  freq :: int
  nextInsertAt :: int
  itemIndex :: int

section \<open>Playback sequencer\<close>

text \<open>
  \<^verbatim>\<open>getValue(value, defaultValue)\<close>: null or undefined gives the default, a wrapper
  object gives \<^verbatim>\<open>value.value ?? defaultValue\<close>, anything else is returned as it is.
\<close>

fun getValue :: "setting \<Rightarrow> int \<Rightarrow> int" where
  "getValue Missing defaultValue = defaultValue"
| "getValue (Boxed None) defaultValue = defaultValue"
| "getValue (Boxed (Some v)) defaultValue = v"
| "getValue (Plain v) defaultValue = v"

text \<open>\<^verbatim>\<open>Number(getValue(stream.settings?.frequency, 5))\<close>.\<close>

definition streamFrequency :: "streamWithItems \<Rightarrow> int" where
  "streamFrequency s =
     getValue (case settings s of None \<Rightarrow> Missing | Some st \<Rightarrow> frequency st) 5"

text \<open>The object spread \<^verbatim>\<open>{...item, streamSettings, streamType}\<close>.\<close>

definition enhance :: "streamWithItems \<Rightarrow> streamItem \<Rightarrow> enhancedStreamItem" where
  "enhance s it =
     \<lparr> item_id = item_id it, stream_id = stream_id it, item_type = item_type it,
       content_url = content_url it, item_order = item_order it,
       streamSettings = settings s, streamType = stream_type s \<rparr>"

text \<open>
  \<^verbatim>\<open>shuffleArray\<close> (Fisher-Yates on a copy). The random source is explicit: \<open>rnd i\<close> is the
  draw made at loop index \<open>i\<close>, and \<open>rnd i mod (i + 1)\<close> stands for
  \<^verbatim>\<open>Math.floor(Math.random() * (i + 1))\<close>, an index between 0 and \<open>i\<close>.
\<close>

fun shuffleLoop :: "(nat \<Rightarrow> nat) \<Rightarrow> nat \<Rightarrow> 'a list \<Rightarrow> 'a list" where
  "shuffleLoop rnd 0 shuffled = shuffled"
| "shuffleLoop rnd (Suc i) shuffled =
     (let j = rnd (Suc i) mod (Suc i + 1)
      in shuffleLoop rnd i (shuffled[Suc i := shuffled ! j, j := shuffled ! Suc i]))"

definition shuffleArray :: "(nat \<Rightarrow> nat) \<Rightarrow> 'a list \<Rightarrow> 'a list" where
  "shuffleArray rnd array = shuffleLoop rnd (length array - 1) array"

text \<open>The three \<^verbatim>\<open>streams.filter\<close> calls.\<close>

definition slideshowStreams :: "streamWithItems list \<Rightarrow> streamWithItems list" where
  "slideshowStreams streams = filter (\<lambda>s. stream_type s = Slideshow) streams"

definition singlePhotoStreams :: "streamWithItems list \<Rightarrow> streamWithItems list" where
  "singlePhotoStreams streams = filter (\<lambda>s. stream_type s = SinglePhoto) streams"

definition videoStreams :: "streamWithItems list \<Rightarrow> streamWithItems list" where
  "videoStreams streams = filter (\<lambda>s. stream_type s = Video) streams"

text \<open>\<^verbatim>\<open>[...singlePhotoStreams, ...videoStreams]\<close>.\<close>

definition frequencyStreams :: "streamWithItems list \<Rightarrow> streamWithItems list" where
  "frequencyStreams streams = singlePhotoStreams streams @ videoStreams streams"

text \<open>The base sequence before shuffling: every slideshow stream's items, enhanced.\<close>

definition collectBaseItems :: "streamWithItems list \<Rightarrow> enhancedStreamItem list" where
  "collectBaseItems streams =
     concat (map (\<lambda>s. map (enhance s) (items s)) (slideshowStreams streams))"

text \<open>The result when there are no base items: all interstitial items in order.\<close>

definition allEnhancedItems :: "streamWithItems list \<Rightarrow> enhancedStreamItem list" where
  "allEnhancedItems streams =
     concat (map (\<lambda>s. map (enhance s) (items s)) (frequencyStreams streams))"

text \<open>
  The \<^verbatim>\<open>frequencyItems\<close> array: for every interstitial stream that has items, one entry
  per item, with \<^verbatim>\<open>nextInsertAt\<close> starting at the stream's frequency.
\<close>

definition streamFrequencyItems :: "streamWithItems \<Rightarrow> frequencyItem list" where
  "streamFrequencyItems s =
     (if length (items s) > 0 then
        (let frequency = streamFrequency s
         in map (\<lambda>it. \<lparr> item = enhance s it, freq = frequency,
                        nextInsertAt = frequency, itemIndex = 0 \<rparr>) (items s))
      else [])"

definition prepareFrequencyItems :: "streamWithItems list \<Rightarrow> frequencyItem list" where
  "prepareFrequencyItems streams = concat (map streamFrequencyItems (frequencyStreams streams))"

text \<open>
  The inner \<^verbatim>\<open>frequencyItems.forEach\<close> of the main loop, run after \<open>baseIndex\<close> has been
  incremented: it returns the items pushed onto the result and the entries with their
  \<^verbatim>\<open>nextInsertAt\<close> advanced.
\<close>

fun insertDue :: "int \<Rightarrow> frequencyItem list \<Rightarrow> enhancedStreamItem list \<times> frequencyItem list" where
  "insertDue baseIndex [] = ([], [])"
| "insertDue baseIndex (freqItem # rest) =
     (let (pushed, rest') = insertDue baseIndex rest
      in if baseIndex = nextInsertAt freqItem
         then (item freqItem # pushed,
               freqItem\<lparr>nextInsertAt := nextInsertAt freqItem + freq freqItem\<rparr> # rest')
         else (pushed, freqItem # rest'))"

text \<open>The \<^verbatim>\<open>while (baseIndex < baseItems.length)\<close> loop.\<close>

function buildLoop ::
  "enhancedStreamItem list \<Rightarrow> nat \<Rightarrow> frequencyItem list \<Rightarrow> enhancedStreamItem list
     \<Rightarrow> enhancedStreamItem list" where
  "buildLoop baseItems baseIndex frequencyItems result =
     (if baseIndex < length baseItems then
        (let result1 = result @ [baseItems ! baseIndex];
             baseIndex1 = baseIndex + 1;
             (pushed, frequencyItems1) = insertDue (int baseIndex1) frequencyItems
         in buildLoop baseItems baseIndex1 frequencyItems1 (result1 @ pushed))
      else result)"
  by pat_completeness auto
termination
  by (relation "measure (\<lambda>(baseItems, baseIndex, _, _). length baseItems - baseIndex)") auto

declare buildLoop.simps [simp del]

definition buildPlaybackSequence ::
  "(nat \<Rightarrow> nat) \<Rightarrow> streamWithItems list \<Rightarrow> bool \<Rightarrow> enhancedStreamItem list" where
  "buildPlaybackSequence rnd streams shuffle =
     (let baseItems0 = collectBaseItems streams;
          baseItems = (if shuffle \<and> length baseItems0 > 0
                       then shuffleArray rnd baseItems0 else baseItems0)
      in if length baseItems = 0 then allEnhancedItems streams
         else buildLoop baseItems 0 (prepareFrequencyItems streams) [])"

subsection \<open>Specification vocabulary for the sequencer\<close>

text \<open>
  The items scheduled after the \<open>k\<close>-th base item (counting from 1): those entries, in
  stream-then-item order, whose frequency is positive and divides \<open>k\<close>. The theorems
  below relate the loop to this schedule.
\<close>

definition scheduledAt :: "nat \<Rightarrow> frequencyItem list \<Rightarrow> enhancedStreamItem list" where
  "scheduledAt k fis = map item (filter (\<lambda>f. 0 < freq f \<and> int k mod freq f = 0) fis)"

text \<open>
  The loop invariant on one entry after \<open>i\<close> base items have been emitted: a positive
  frequency keeps \<^verbatim>\<open>nextInsertAt\<close> at the next multiple of the frequency beyond \<open>i\<close>;
  any other frequency leaves it at a value no base index reaches.
\<close>

definition armed :: "nat \<Rightarrow> frequencyItem \<Rightarrow> bool" where
  "armed i f =
     (if 0 < freq f
      then int i < nextInsertAt f \<and> nextInsertAt f \<le> int i + freq f \<and> freq f dvd nextInsertAt f
      else nextInsertAt f \<le> 0)"

text \<open>The value of \<^verbatim>\<open>baseItems\<close> when the main loop starts.\<close>

definition shuffledBase ::
  "(nat \<Rightarrow> nat) \<Rightarrow> streamWithItems list \<Rightarrow> bool \<Rightarrow> enhancedStreamItem list" where
  "shuffledBase rnd streams shuffle =
     (if shuffle \<and> length (collectBaseItems streams) > 0
      then shuffleArray rnd (collectBaseItems streams) else collectBaseItems streams)"

text \<open>The frequency an enhanced item carries in its copied stream settings.\<close>

definition itemFrequency :: "enhancedStreamItem \<Rightarrow> int" where
  "itemFrequency e =
     getValue (case streamSettings e of None \<Rightarrow> Missing | Some st \<Rightarrow> frequency st) 5"

text \<open>
  The vocabulary of the specification, written without the sequencer's own helpers. The
  primary streams are those of kind slideshow and every other stream is interstitial;
  \<open>primaryCount\<close> is the total number of primary items. The configured frequency of a
  stream is the number its settings hold, plain or wrapped, and 5 when the settings, the
  field or the wrapped value is missing. A played item is a stream item paired with the
  settings and the kind of the stream that owns it.
\<close>

definition primaryCount :: "streamWithItems list \<Rightarrow> nat" where
  "primaryCount streams =
     (\<Sum>s\<leftarrow>streams. if stream_type s = Slideshow then length (items s) else 0)"

definition interstitialStreams :: "streamWithItems list \<Rightarrow> streamWithItems list" where
  "interstitialStreams streams = filter (\<lambda>s. stream_type s \<noteq> Slideshow) streams"

definition configuredFrequency :: "streamWithItems \<Rightarrow> int" where
  "configuredFrequency s =
     (case settings s of
        None \<Rightarrow> 5
      | Some st \<Rightarrow>
          (case frequency st of
             Missing \<Rightarrow> 5
           | Plain v \<Rightarrow> v
           | Boxed None \<Rightarrow> 5
           | Boxed (Some v) \<Rightarrow> v))"

definition playedItem :: "streamWithItems \<Rightarrow> streamItem \<Rightarrow> enhancedStreamItem" where
  "playedItem s it =
     streamItem.extend it (enhancedStreamItem.fields (settings s) (stream_type s))"

text \<open>
  Reading a built sequence: an entry is a base item when its kind is slideshow, and
  \<open>runsAfterBase out ! (k - 1)\<close> is the run of interstitial entries that directly follows
  the \<open>k\<close>-th base item of \<open>out\<close>, up to the next base item or the end.
\<close>

definition isBaseItem :: "enhancedStreamItem \<Rightarrow> bool" where
  "isBaseItem e = (streamType e = Slideshow)"

fun runsAfterBase :: "enhancedStreamItem list \<Rightarrow> enhancedStreamItem list list" where
  "runsAfterBase [] = []"
| "runsAfterBase (e # es) =
     (if isBaseItem e then takeWhile (\<lambda>x. \<not> isBaseItem x) es # runsAfterBase es
      else runsAfterBase es)"

subsection \<open>Example streams\<close>

text \<open>
  A slideshow stream of \<open>n\<close> photos, a single-photo stream with one photo at a given
  plain frequency and a video stream with one clip at a given wrapped frequency; the
  random source that always draws 0 is used where the draws do not matter. In
  \<open>mixedStreams\<close> the video stream is declared first.
\<close>

definition noShuffleDraws :: "nat \<Rightarrow> nat" where
  "noShuffleDraws i = 0"

definition photo :: "string \<Rightarrow> nat \<Rightarrow> streamItem" where
  "photo sid k = \<lparr> item_id = ''p'', stream_id = sid, item_type = PhotoItem,
                   content_url = ''u'', item_order = int k \<rparr>"

definition primaryStream :: "nat \<Rightarrow> streamWithItems" where
  "primaryStream n =
     \<lparr> stream_ident = ''s1'', stream_type = Slideshow, title = ''main'', stream_order = 0,
       settings = None, items = map (photo ''s1'') [1..<Suc n] \<rparr>"

definition interstitialStream :: "int \<Rightarrow> streamWithItems" where
  "interstitialStream F =
     \<lparr> stream_ident = ''s2'', stream_type = SinglePhoto, title = ''ad'', stream_order = 1,
       settings = Some \<lparr> duration = Missing, transition = None, transitionSpeed = None,
                        frequency = Plain F \<rparr>,
       items = [photo ''s2'' 1] \<rparr>"

definition baseItem :: "nat \<Rightarrow> nat \<Rightarrow> enhancedStreamItem" where
  "baseItem n k = enhance (primaryStream n) (photo ''s1'' k)"

definition adItem :: "int \<Rightarrow> enhancedStreamItem" where
  "adItem F = enhance (interstitialStream F) (photo ''s2'' 1)"

definition clip :: streamItem where
  "clip = \<lparr> item_id = ''v'', stream_id = ''s3'', item_type = VideoItem,
            content_url = ''w'', item_order = 1 \<rparr>"

definition videoStream :: "int \<Rightarrow> streamWithItems" where
  "videoStream F =
     \<lparr> stream_ident = ''s3'', stream_type = Video, title = ''clip'', stream_order = 2,
       settings = Some \<lparr> duration = Missing, transition = None, transitionSpeed = None,
                        frequency = Boxed (Some F) \<rparr>,
       items = [clip] \<rparr>"

definition mixedStreams :: "streamWithItems list" where
  "mixedStreams = [videoStream 3, primaryStream 6, interstitialStream 2]"

definition playedPhoto :: "nat \<Rightarrow> nat \<Rightarrow> enhancedStreamItem" where
  "playedPhoto n k = playedItem (primaryStream n) (photo ''s1'' k)"

definition playedAd :: "int \<Rightarrow> enhancedStreamItem" where
  "playedAd F = playedItem (interstitialStream F) (photo ''s2'' 1)"

definition playedClip :: "int \<Rightarrow> enhancedStreamItem" where
  "playedClip F = playedItem (videoStream F) clip"

section \<open>Display command reducer\<close>

text \<open>
  The playback state of \<^verbatim>\<open>SlideshowPreview\<close>. Each handler is a closure created by one
  render: its first two parameters are the length of \<^verbatim>\<open>allItems\<close> and the truthiness of
  \<^verbatim>\<open>slideshow?.settings?.loop\<close> that this render saw. The current index a handler
  updates is always the live one (\<^verbatim>\<open>setCurrentIndex(prev => ...)\<close>).
\<close>

record previewState =
  currentIndex :: int
  isPlaying :: bool
  isBlackScreen :: bool

text \<open>
  The body of \<^verbatim>\<open>handleCommand\<close>, the handler of remote commands, for the length and loop
  flag its closure captured. The second component of the result tells whether
  \<^verbatim>\<open>window.location.reload()\<close> was called. A command outside the switch changes nothing.
  Which render's closure the command channel calls is settled below
  (\<open>subscribedClosure\<close>).
\<close>

definition handleCommand :: "nat \<Rightarrow> bool \<Rightarrow> string \<Rightarrow> previewState \<Rightarrow> previewState \<times> bool" where
  "handleCommand allItemsLength loop command st =
     (if command = ''next'' then
        (let nextIndex = currentIndex st + 1
         in if nextIndex \<ge> int allItemsLength
            then (if loop then st\<lparr>currentIndex := 0\<rparr> else st\<lparr>isPlaying := False\<rparr>)
            else st\<lparr>currentIndex := nextIndex\<rparr>,
         False)
      else if command = ''previous'' then
        (let prevIndex = currentIndex st - 1
         in st\<lparr>currentIndex := (if prevIndex < 0 then int allItemsLength - 1 else prevIndex)\<rparr>,
         False)
      else if command = ''play'' then (st\<lparr>isPlaying := True\<rparr>, False)
      else if command = ''pause'' then (st\<lparr>isPlaying := False\<rparr>, False)
      else if command = ''reload'' then (st, True)
      else if command = ''black-screen'' then (st\<lparr>isBlackScreen := True\<rparr>, False)
      else if command = ''show-screen'' then (st\<lparr>isBlackScreen := False\<rparr>, False)
      else (st, False))"

text \<open>\<^verbatim>\<open>handleNext\<close> and \<^verbatim>\<open>handlePrevious\<close>, the local (timer, keyboard, button) handlers.\<close>

definition handleNext :: "nat \<Rightarrow> bool \<Rightarrow> previewState \<Rightarrow> previewState" where
  "handleNext allItemsLength loop st =
     (if allItemsLength = 0 then st
      else let nextIndex = currentIndex st + 1
           in if nextIndex \<ge> int allItemsLength
              then (if loop then st\<lparr>currentIndex := 0\<rparr> else st\<lparr>isPlaying := False\<rparr>)
              else st\<lparr>currentIndex := nextIndex\<rparr>)"

definition handlePrevious :: "nat \<Rightarrow> previewState \<Rightarrow> previewState" where
  "handlePrevious allItemsLength st =
     (if allItemsLength = 0 then st
      else let prevIndex = currentIndex st - 1
           in if prevIndex < 0 then st\<lparr>currentIndex := int allItemsLength - 1\<rparr>
              else st\<lparr>currentIndex := prevIndex\<rparr>)"

text \<open>The six commands that stay within the display session.\<close>

definition playbackCommands :: "string list" where
  "playbackCommands = [''next'', ''previous'', ''play'', ''pause'', ''black-screen'', ''show-screen'']"

text \<open>The index invariant: the current index addresses an item of the list.\<close>

definition indexInRange :: "nat \<Rightarrow> previewState \<Rightarrow> bool" where
  "indexInRange allItemsLength st =
     (0 \<le> currentIndex st \<and> currentIndex st < int allItemsLength)"

text \<open>The state the component starts in: \<^verbatim>\<open>useState(0)\<close>, \<^verbatim>\<open>useState(true)\<close>, \<^verbatim>\<open>useState(false)\<close>.\<close>

definition initialPreviewState :: previewState where
  "initialPreviewState = \<lparr> currentIndex = 0, isPlaying = True, isBlackScreen = False \<rparr>"

subsection \<open>Delivery of remote commands\<close>

text \<open>
  The effect that subscribes \<^verbatim>\<open>handleCommand\<close> to the command channel stands near the
  top of the component body and lists \<^verbatim>\<open>[id, handleCommand]\<close> as its dependencies, while
  \<^verbatim>\<open>const handleCommand = useCallback(...)\<close> stands some 280 lines further down. The
  dependency array is evaluated during the render, before that declaration is reached.
  With \<^verbatim>\<open>const\<close> as written the read throws a ReferenceError and the render fails; where
  the build lowers \<^verbatim>\<open>const\<close> to \<^verbatim>\<open>var\<close> the read gives \<^verbatim>\<open>undefined\<close> in every render.
  The body of the effect runs after the render, when the variable holds that render's
  closure.
\<close>

datatype constReading = ConstAsWritten | ConstLoweredToVar

datatype dependency = Throws | DepUndefined

text \<open>What one render's \<^verbatim>\<open>handleCommand\<close> closure captured.\<close>

record closure =
  capturedLength :: nat
  capturedLoop :: bool

text \<open>
  The value of \<^verbatim>\<open>handleCommand\<close> in the dependency array of a render; it does not depend
  on the closure that the render goes on to create.
\<close>

definition handleCommandDep :: "constReading \<Rightarrow> closure \<Rightarrow> dependency" where
  "handleCommandDep reading c =
     (case reading of ConstAsWritten \<Rightarrow> Throws | ConstLoweredToVar \<Rightarrow> DepUndefined)"

text \<open>
  The renders of one mounted component, for a fixed slideshow id, oldest first. The
  effect runs after the first render and after every render whose dependencies differ
  from those of the render before; when it runs it subscribes that render's closure in
  place of the one subscribed before. \<open>subscribed\<close> is the closure subscribed so far and
  \<open>previous\<close> the dependency of the render before. A render that throws leaves no
  handler.
\<close>

fun runRenders ::
  "constReading \<Rightarrow> closure option \<Rightarrow> dependency option \<Rightarrow> closure list \<Rightarrow> closure option" where
  "runRenders reading subscribed previous [] = subscribed"
| "runRenders reading subscribed previous (c # later) =
     (case handleCommandDep reading c of
        Throws \<Rightarrow> None
      | DepUndefined \<Rightarrow>
          if previous = Some DepUndefined then runRenders reading subscribed previous later
          else runRenders reading (Some c) (Some DepUndefined) later)"

definition subscribedClosure :: "constReading \<Rightarrow> closure list \<Rightarrow> closure option" where
  "subscribedClosure reading renders = runRenders reading None None renders"

text \<open>
  The first render sees \<^verbatim>\<open>useState([])\<close> and \<^verbatim>\<open>useState(null)\<close>: no items and no loop
  setting. \<open>rendersOf L loop\<close> are the renders of a component whose data has loaded into a
  list of \<open>L\<close> items with the given loop setting.
\<close>

definition mountClosure :: closure where
  "mountClosure = \<lparr> capturedLength = 0, capturedLoop = False \<rparr>"

definition rendersOf :: "nat \<Rightarrow> bool \<Rightarrow> closure list" where
  "rendersOf L loop = [mountClosure, \<lparr> capturedLength = L, capturedLoop = loop \<rparr>]"

text \<open>A command arriving on the command channel: the subscribed closure, if any, handles it.\<close>

definition receiveCommand ::
  "constReading \<Rightarrow> closure list \<Rightarrow> string \<Rightarrow> previewState \<Rightarrow> (previewState \<times> bool) option" where
  "receiveCommand reading renders command st =
     (case subscribedClosure reading renders of
        None \<Rightarrow> None
      | Some c \<Rightarrow> Some (handleCommand (capturedLength c) (capturedLoop c) command st))"

section \<open>Controller liveness\<close>

text \<open>
  The two pieces of \<^verbatim>\<open>RemoteControl\<close> state that track the display: the timestamp taken
  from the last heartbeat's payload (null before any heartbeat) and the derived flag.
  Times are milliseconds.
\<close>

record controllerState =
  lastHeartbeat :: "int option"
  isPreviewActive :: bool

definition initialControllerState :: controllerState where
  "initialControllerState = \<lparr> lastHeartbeat = None, isPreviewActive = False \<rparr>"

definition livenessTimeoutMs :: int where
  "livenessTimeoutMs = 10000"

definition pollIntervalMs :: int where
  "pollIntervalMs = 1000"

text \<open>
  The heartbeat callback: it stores the timestamp carried by the message, which the
  display took from its own clock when sending, and marks the display active.
\<close>

definition onHeartbeat :: "int \<Rightarrow> controllerState \<Rightarrow> controllerState" where
  "onHeartbeat timestamp st = st\<lparr>lastHeartbeat := Some timestamp, isPreviewActive := True\<rparr>"

text \<open>
  One firing of the interval callback at controller time \<open>now\<close>. The guard
  \<^verbatim>\<open>if (lastHeartbeat)\<close> is a truthiness test: null and 0 both skip the update.
\<close>

definition pollTick :: "int \<Rightarrow> controllerState \<Rightarrow> controllerState" where
  "pollTick now st =
     (case lastHeartbeat st of
        None \<Rightarrow> st
      | Some t \<Rightarrow>
          if t \<noteq> 0
          then (let timeSinceHeartbeat = now - t
                in st\<lparr>isPreviewActive := (timeSinceHeartbeat < livenessTimeoutMs)\<rparr>)
          else st)"

text \<open>
  The interval started at controller time \<open>start\<close>, with ideal timers: the \<open>n\<close>-th firing
  happens at \<open>start + n * pollIntervalMs\<close>.
\<close>

fun runTicks :: "int \<Rightarrow> nat \<Rightarrow> controllerState \<Rightarrow> controllerState" where
  "runTicks start 0 st = st"
| "runTicks start (Suc n) st = pollTick (start + pollIntervalMs * int (Suc n)) (runTicks start n st)"

text \<open>
  The derivation in the specification's words, for comparison with the code: the display
  is active when less than the liveness timeout has passed since the controller received
  the last heartbeat.
\<close>

definition specDisplayActive :: "int \<Rightarrow> int \<Rightarrow> bool" where
  "specDisplayActive now lastHeartbeatReceiptTime =
     (now - lastHeartbeatReceiptTime < livenessTimeoutMs)"

section \<open>Channel services\<close>

text \<open>
  The command service and the status service talk to the realtime relay through channel
  objects, cached per topic name in three module-level maps. The relay client itself is
  outside the repository, so its observable calls are recorded in a trace, and what it
  answers is an input of each operation. A channel object is held by value together with
  a serial number that tells one created object from another.
\<close>

datatype channelState = Closed | Joining | Joined | Errored | Leaving

datatype subscribeStatus = SUBSCRIBED | TIMED_OUT | CLOSED | CHANNEL_ERROR

record channel =
  topic :: string
  selfBroadcast :: bool
  state :: channelState
  serial :: nat

datatype effect =
    DbInsert string string
  | ConsoleError string
  | CreateChannel string bool
  | On string string
  | Subscribe string
  | Send string string
  | Unsubscribe string

record world =
  commandChannels :: "string \<rightharpoonup> channel"
  statusChannels :: "string \<rightharpoonup> channel"
  heartbeatChannels :: "string \<rightharpoonup> channel"
  created :: nat
  trace :: "effect list"

definition emptyWorld :: world where
  "emptyWorld = \<lparr> commandChannels = Map.empty, statusChannels = Map.empty,
                   heartbeatChannels = Map.empty, created = 0, trace = [] \<rparr>"

definition emit :: "effect \<Rightarrow> world \<Rightarrow> world" where
  "emit e w = w\<lparr>trace := trace w @ [e]\<rparr>"

text \<open>The three channel-name templates.\<close>

definition commandChannelName :: "string \<Rightarrow> string" where
  "commandChannelName slideshowId = ''slideshow:'' @ slideshowId @ '':commands''"

definition statusChannelName :: "string \<Rightarrow> string" where
  "statusChannelName slideshowId = ''slideshow:'' @ slideshowId @ '':status''"

definition heartbeatChannelName :: "string \<Rightarrow> string" where
  "heartbeatChannelName slideshowId = ''slideshow:'' @ slideshowId @ '':heartbeat''"

text \<open>\<^verbatim>\<open>supabase.channel(channelName, {config: {broadcast: {self}}})\<close>: a new channel object.\<close>

definition newChannel :: "string \<Rightarrow> bool \<Rightarrow> world \<Rightarrow> channel \<times> world" where
  "newChannel channelName self w =
     (\<lparr> topic = channelName, selfBroadcast = self, state = Closed, serial = created w \<rparr>,
      emit (CreateChannel channelName self) (w\<lparr>created := created w + 1\<rparr>))"

text \<open>\<^verbatim>\<open>getCommandChannel\<close>, \<^verbatim>\<open>getStatusChannel\<close>, \<^verbatim>\<open>getHeartbeatChannel\<close>: get or create.\<close>

definition getCommandChannel :: "string \<Rightarrow> world \<Rightarrow> channel \<times> world" where
  "getCommandChannel slideshowId w =
     (let channelName = commandChannelName slideshowId
      in case commandChannels w channelName of
           Some channel \<Rightarrow> (channel, w)
         | None \<Rightarrow>
             (let (channel, w1) = newChannel channelName True w
              in (channel, w1\<lparr>commandChannels := (commandChannels w1)(channelName \<mapsto> channel)\<rparr>)))"

definition getStatusChannel :: "string \<Rightarrow> world \<Rightarrow> channel \<times> world" where
  "getStatusChannel slideshowId w =
     (let channelName = statusChannelName slideshowId
      in case statusChannels w channelName of
           Some channel \<Rightarrow> (channel, w)
         | None \<Rightarrow>
             (let (channel, w1) = newChannel channelName False w
              in (channel, w1\<lparr>statusChannels := (statusChannels w1)(channelName \<mapsto> channel)\<rparr>)))"

definition getHeartbeatChannel :: "string \<Rightarrow> world \<Rightarrow> channel \<times> world" where
  "getHeartbeatChannel slideshowId w =
     (let channelName = heartbeatChannelName slideshowId
      in case heartbeatChannels w channelName of
           Some channel \<Rightarrow> (channel, w)
         | None \<Rightarrow>
             (let (channel, w1) = newChannel channelName False w
              in (channel, w1\<lparr>heartbeatChannels := (heartbeatChannels w1)(channelName \<mapsto> channel)\<rparr>)))"

text \<open>
  The join promise of the three publish functions. The relay's answer to
  \<^verbatim>\<open>channel.subscribe\<close> is \<open>Some (delay, status)\<close>, the first status callback and the
  milliseconds after which it arrives, or \<open>None\<close> when no callback arrives. The promise
  races it against \<^verbatim>\<open>setTimeout(..., 5000)\<close>; the result is its outcome, and the world is
  the one at the moment the promise settles; a callback that arrives later is
  \<open>lateJoinStatus\<close> below. The first argument writes to the cache the caller uses. The
  state a channel object takes on joining is the relay client's own behaviour (joining
  once subscribed, joined once the relay confirms).
\<close>

datatype sendError = SubscriptionTimeout | SubscriptionFailed subscribeStatus

definition subscriptionTimeoutMs :: nat where
  "subscriptionTimeoutMs = 5000"

definition awaitJoin ::
  "(((string \<rightharpoonup> channel) \<Rightarrow> (string \<rightharpoonup> channel)) \<Rightarrow> world \<Rightarrow> world) \<Rightarrow> string \<Rightarrow> channel
     \<Rightarrow> (nat \<times> subscribeStatus) option \<Rightarrow> world \<Rightarrow> (sendError + unit) \<times> world" where
  "awaitJoin updateCache channelName channel reply w =
     (let w1 = emit (Subscribe (topic channel)) w;
          pending = updateCache (\<lambda>c. c(channelName \<mapsto> channel\<lparr>state := Joining\<rparr>)) w1
      in case reply of
           None \<Rightarrow> (Inl SubscriptionTimeout, pending)
         | Some (delay, status) \<Rightarrow>
             if delay < subscriptionTimeoutMs then
               (if status = SUBSCRIBED
                then (Inr (), updateCache (\<lambda>c. c(channelName \<mapsto> channel\<lparr>state := Joined\<rparr>)) w1)
                else (Inl (SubscriptionFailed status),
                      updateCache (\<lambda>c. c(channelName := None)) w1))
             else (Inl SubscriptionTimeout, pending))"

text \<open>
  The subscribe callback of a publish call keeps running after its promise has settled. A
  status that arrives late finds the promise rejected by the timer: a failure status
  still deletes whatever the cache then holds under the name, and a confirmation only
  marks the channel object joined, which shows in the cache when that object is still
  the cached one. The first two arguments read and write the cache the caller uses.
\<close>

definition lateJoinStatus ::
  "(world \<Rightarrow> (string \<rightharpoonup> channel))
     \<Rightarrow> (((string \<rightharpoonup> channel) \<Rightarrow> (string \<rightharpoonup> channel)) \<Rightarrow> world \<Rightarrow> world) \<Rightarrow> string \<Rightarrow> channel
     \<Rightarrow> subscribeStatus \<Rightarrow> world \<Rightarrow> world" where
  "lateJoinStatus cache updateCache channelName channel status w =
     (if status = SUBSCRIBED then
        (case cache w channelName of
           None \<Rightarrow> w
         | Some cached \<Rightarrow>
             if serial cached = serial channel
             then updateCache (\<lambda>c. c(channelName \<mapsto> cached\<lparr>state := Joined\<rparr>)) w
             else w)
      else updateCache (\<lambda>c. c(channelName := None)) w)"

text \<open>
  \<^verbatim>\<open>sendCommand\<close>. \<open>dbError\<close> tells whether the insert into \<^verbatim>\<open>slideshow_commands\<close>
  returned an error.
\<close>

definition sendCommand ::
  "string \<Rightarrow> string \<Rightarrow> bool \<Rightarrow> (nat \<times> subscribeStatus) option \<Rightarrow> world
     \<Rightarrow> (sendError + unit) \<times> world" where
  "sendCommand slideshowId command dbError reply w =
     (let w1 = emit (DbInsert slideshowId command) w;
          w2 = (if dbError then emit (ConsoleError ''Failed to save command to database:'') w1
                else w1);
          (channel, w3) = getCommandChannel slideshowId w2;
          (joined, w4) =
            (if state channel \<noteq> Joined
             then awaitJoin commandChannels_update (commandChannelName slideshowId) channel reply w3
             else (Inr (), w3))
      in case joined of
           Inl err \<Rightarrow> (Inl err, w4)
         | Inr _ \<Rightarrow> (Inr (), emit (Send (topic channel) ''command'') w4))"

text \<open>\<^verbatim>\<open>broadcastStatus\<close> and \<^verbatim>\<open>sendHeartbeat\<close>.\<close>

definition broadcastStatus ::
  "string \<Rightarrow> (nat \<times> subscribeStatus) option \<Rightarrow> world \<Rightarrow> (sendError + unit) \<times> world" where
  "broadcastStatus slideshowId reply w =
     (let (channel, w1) = getStatusChannel slideshowId w;
          (joined, w2) =
            (if state channel \<noteq> Joined
             then awaitJoin statusChannels_update (statusChannelName slideshowId) channel reply w1
             else (Inr (), w1))
      in case joined of
           Inl err \<Rightarrow> (Inl err, w2)
         | Inr _ \<Rightarrow> (Inr (), emit (Send (topic channel) ''status'') w2))"

definition sendHeartbeat ::
  "string \<Rightarrow> (nat \<times> subscribeStatus) option \<Rightarrow> world \<Rightarrow> (sendError + unit) \<times> world" where
  "sendHeartbeat slideshowId reply w =
     (let (channel, w1) = getHeartbeatChannel slideshowId w;
          (joined, w2) =
            (if state channel \<noteq> Joined
             then awaitJoin heartbeatChannels_update (heartbeatChannelName slideshowId) channel reply w1
             else (Inr (), w1))
      in case joined of
           Inl err \<Rightarrow> (Inl err, w2)
         | Inr _ \<Rightarrow> (Inr (), emit (Send (topic channel) ''heartbeat'') w2))"

text \<open>
  The subscribe functions: evict and unsubscribe a cached channel, get a fresh one, add
  the broadcast listener and subscribe, which leaves the channel joining. \<open>reply\<close> is the
  status the subscribe callback is called with, if any: a failure status is reported
  with \<^verbatim>\<open>console.error\<close> and removes the channel from the cache, a confirmation leaves
  the channel joined. The closure each of them returns (unsubscribe and evict) plays no
  part in the properties below and is left out.
\<close>

definition statusText :: "subscribeStatus \<Rightarrow> string" where
  "statusText status =
     (case status of
        SUBSCRIBED \<Rightarrow> ''SUBSCRIBED''
      | TIMED_OUT \<Rightarrow> ''TIMED_OUT''
      | CLOSED \<Rightarrow> ''CLOSED''
      | CHANNEL_ERROR \<Rightarrow> ''CHANNEL_ERROR'')"

definition subscribeToCommands :: "string \<Rightarrow> subscribeStatus option \<Rightarrow> world \<Rightarrow> world" where
  "subscribeToCommands slideshowId reply w =
     (let channelName = commandChannelName slideshowId;
          w1 = (case commandChannels w channelName of
                  Some existingChannel \<Rightarrow>
                    (emit (Unsubscribe (topic existingChannel)) w)
                      \<lparr>commandChannels := (commandChannels w)(channelName := None)\<rparr>
                | None \<Rightarrow> w);
          (channel, w2) = getCommandChannel slideshowId w1;
          w3 = emit (Subscribe (topic channel)) (emit (On (topic channel) ''command'') w2)
      in case reply of
           None \<Rightarrow>
             w3\<lparr>commandChannels := (commandChannels w3)(channelName \<mapsto> channel\<lparr>state := Joining\<rparr>)\<rparr>
         | Some status \<Rightarrow>
             if status = CHANNEL_ERROR \<or> status = TIMED_OUT \<or> status = CLOSED
             then (emit (ConsoleError (''Command channel subscription failed: '' @ statusText status @
                                       '', will retry on next command'')) w3)
                    \<lparr>commandChannels := (commandChannels w3)(channelName := None)\<rparr>
             else w3\<lparr>commandChannels := (commandChannels w3)(channelName \<mapsto> channel\<lparr>state := Joined\<rparr>)\<rparr>)"

definition subscribeToStatus :: "string \<Rightarrow> subscribeStatus option \<Rightarrow> world \<Rightarrow> world" where
  "subscribeToStatus slideshowId reply w =
     (let channelName = statusChannelName slideshowId;
          w1 = (case statusChannels w channelName of
                  Some existingChannel \<Rightarrow>
                    (emit (Unsubscribe (topic existingChannel)) w)
                      \<lparr>statusChannels := (statusChannels w)(channelName := None)\<rparr>
                | None \<Rightarrow> w);
          (channel, w2) = getStatusChannel slideshowId w1;
          w3 = emit (Subscribe (topic channel)) (emit (On (topic channel) ''status'') w2)
      in case reply of
           None \<Rightarrow>
             w3\<lparr>statusChannels := (statusChannels w3)(channelName \<mapsto> channel\<lparr>state := Joining\<rparr>)\<rparr>
         | Some status \<Rightarrow>
             if status = CHANNEL_ERROR \<or> status = TIMED_OUT \<or> status = CLOSED
             then (emit (ConsoleError (''Status channel subscription failed: '' @ statusText status @
                                       '', will retry on reconnection'')) w3)
                    \<lparr>statusChannels := (statusChannels w3)(channelName := None)\<rparr>
             else w3\<lparr>statusChannels := (statusChannels w3)(channelName \<mapsto> channel\<lparr>state := Joined\<rparr>)\<rparr>)"

definition subscribeToHeartbeat :: "string \<Rightarrow> subscribeStatus option \<Rightarrow> world \<Rightarrow> world" where
  "subscribeToHeartbeat slideshowId reply w =
     (let channelName = heartbeatChannelName slideshowId;
          w1 = (case heartbeatChannels w channelName of
                  Some existingChannel \<Rightarrow>
                    (emit (Unsubscribe (topic existingChannel)) w)
                      \<lparr>heartbeatChannels := (heartbeatChannels w)(channelName := None)\<rparr>
                | None \<Rightarrow> w);
          (channel, w2) = getHeartbeatChannel slideshowId w1;
          w3 = emit (Subscribe (topic channel)) (emit (On (topic channel) ''heartbeat'') w2)
      in case reply of
           None \<Rightarrow>
             w3\<lparr>heartbeatChannels := (heartbeatChannels w3)(channelName \<mapsto> channel\<lparr>state := Joining\<rparr>)\<rparr>
         | Some status \<Rightarrow>
             if status = CHANNEL_ERROR \<or> status = TIMED_OUT \<or> status = CLOSED
             then (emit (ConsoleError (''Heartbeat channel subscription failed: '' @ statusText status @
                                       '', will retry on reconnection'')) w3)
                    \<lparr>heartbeatChannels := (heartbeatChannels w3)(channelName := None)\<rparr>
             else w3\<lparr>heartbeatChannels := (heartbeatChannels w3)(channelName \<mapsto> channel\<lparr>state := Joined\<rparr>)\<rparr>)"

subsection \<open>Specification vocabulary for the channel services\<close>

text \<open>The relay calls an operation added to the trace.\<close>

definition newEffects :: "world \<Rightarrow> world \<Rightarrow> effect list" where
  "newEffects before after = drop (length (trace before)) (trace after)"

text \<open>An effect stays on one topic and one event name; effects off the relay are neutral.\<close>

fun onTopic :: "string \<Rightarrow> string \<Rightarrow> effect \<Rightarrow> bool" where
  "onTopic t ev (CreateChannel n self) = (n = t)"
| "onTopic t ev (On n e) = (n = t \<and> e = ev)"
| "onTopic t ev (Subscribe n) = (n = t)"
| "onTopic t ev (Send n e) = (n = t \<and> e = ev)"
| "onTopic t ev (Unsubscribe n) = (n = t)"
| "onTopic t ev (DbInsert i c) = True"
| "onTopic t ev (ConsoleError m) = True"

text \<open>Every cached channel was created under the name it is cached by.\<close>

definition cacheNamed :: "(string \<rightharpoonup> channel) \<Rightarrow> bool" where
  "cacheNamed cache = (\<forall>name ch. cache name = Some ch \<longrightarrow> topic ch = name)"

definition wellNamed :: "world \<Rightarrow> bool" where
  "wellNamed w =
     (cacheNamed (commandChannels w) \<and> cacheNamed (statusChannels w) \<and>
      cacheNamed (heartbeatChannels w))"

text \<open>The topic names as the specification writes them.\<close>

definition specCommandTopic :: "string \<Rightarrow> string" where
  "specCommandTopic sessionId = ''session:'' @ sessionId @ '':commands''"

definition specStatusTopic :: "string \<Rightarrow> string" where
  "specStatusTopic sessionId = ''session:'' @ sessionId @ '':status''"

definition specHeartbeatTopic :: "string \<Rightarrow> string" where
  "specHeartbeatTopic sessionId = ''session:'' @ sessionId @ '':heartbeat''"

text \<open>
  The join of a publish call completes when the channel is already joined or the relay
  confirms the subscription before the timeout.
\<close>

definition joinCompletes :: "channel \<Rightarrow> (nat \<times> subscribeStatus) option \<Rightarrow> bool" where
  "joinCompletes ch reply =
     (state ch = Joined \<or>
      (case reply of None \<Rightarrow> False
       | Some (delay, status) \<Rightarrow> delay < subscriptionTimeoutMs \<and> status = SUBSCRIBED))"

subsection \<open>Example worlds\<close>

text \<open>
  The worlds left by one publish call of each kind for slideshow \<open>42\<close>, started with empty
  caches, when the relay does not answer the join within the timeout.
\<close>

definition afterCommandTimeout :: world where
  "afterCommandTimeout = snd (sendCommand ''42'' ''next'' False None emptyWorld)"

definition afterStatusTimeout :: world where
  "afterStatusTimeout = snd (broadcastStatus ''42'' None emptyWorld)"

definition afterHeartbeatTimeout :: world where
  "afterHeartbeatTimeout = snd (sendHeartbeat ''42'' None emptyWorld)"

section \<open>Properties of the playback sequencer\<close>

lemma hit_iff:
  assumes "armed i f"
  shows "int (Suc i) = nextInsertAt f \<longleftrightarrow> 0 < freq f \<and> int (Suc i) mod freq f = 0"
proof (cases "0 < freq f")
  case False
  with assms show ?thesis by (simp add: armed_def)
next
  case True
  with assms have b: "int i < nextInsertAt f" "nextInsertAt f \<le> int i + freq f"
    and d: "freq f dvd nextInsertAt f" by (simp_all add: armed_def)
  show ?thesis
  proof
    assume "int (Suc i) = nextInsertAt f"
    with d True show "0 < freq f \<and> int (Suc i) mod freq f = 0" by (simp add: mod_eq_0_iff_dvd)
  next
    assume "0 < freq f \<and> int (Suc i) mod freq f = 0"
    then have "freq f dvd int (Suc i)" by (simp add: mod_eq_0_iff_dvd)
    with d have dd: "freq f dvd (nextInsertAt f - int (Suc i))" by simp
    have "0 \<le> nextInsertAt f - int (Suc i)" "nextInsertAt f - int (Suc i) < freq f"
      using b by simp_all
    with dd have "nextInsertAt f - int (Suc i) = 0"
      using zdvd_not_zless [of "nextInsertAt f - int (Suc i)" "freq f"] by (cases "nextInsertAt f - int (Suc i) = 0") auto
    then show "int (Suc i) = nextInsertAt f" by simp
  qed
qed

lemma armed_step:
  assumes "armed i f"
  shows "armed (Suc i)
           (if int (Suc i) = nextInsertAt f then f\<lparr>nextInsertAt := nextInsertAt f + freq f\<rparr> else f)"
  using assms by (auto simp: armed_def)

lemma insertDue_fst:
  "\<forall>f\<in>set fis. armed i f \<Longrightarrow> fst (insertDue (int (Suc i)) fis) = scheduledAt (Suc i) fis"
proof (induction fis)
  case Nil
  show ?case by (simp add: scheduledAt_def)
next
  case (Cons f fis)
  then have a: "armed i f" and r: "fst (insertDue (int (Suc i)) fis) = scheduledAt (Suc i) fis"
    by simp_all
  obtain pushed rest where ins: "insertDue (int (Suc i)) fis = (pushed, rest)"
    by (cases "insertDue (int (Suc i)) fis")
  with r have p: "pushed = scheduledAt (Suc i) fis" by simp
  show ?case
  proof (cases "int (Suc i) = nextInsertAt f")
    case True
    with hit_iff [OF a] have "0 < freq f \<and> int (Suc i) mod freq f = 0" by simp
    with True ins p show ?thesis by (simp add: scheduledAt_def)
  next
    case False
    with hit_iff [OF a] have "\<not> (0 < freq f \<and> int (Suc i) mod freq f = 0)" by simp
    with False ins p show ?thesis by (simp add: scheduledAt_def)
  qed
qed

lemma insertDue_armed:
  "\<forall>f\<in>set fis. armed i f \<Longrightarrow> \<forall>f\<in>set (snd (insertDue (int (Suc i)) fis)). armed (Suc i) f"
proof (induction fis)
  case Nil
  show ?case by simp
next
  case (Cons f fis)
  then have a: "armed i f"
    and r: "\<forall>f\<in>set (snd (insertDue (int (Suc i)) fis)). armed (Suc i) f"
    by simp_all
  show ?case using armed_step [OF a] r
    by (simp split: prod.splits if_splits)
qed

lemma insertDue_scheduledAt:
  "scheduledAt k (snd (insertDue j fis)) = scheduledAt k fis"
  by (induction fis) (auto simp: scheduledAt_def split: prod.splits)

lemma buildLoop_blocks:
  "\<forall>f\<in>set fis. armed i f \<Longrightarrow>
   buildLoop base i fis result =
     result @ concat (map (\<lambda>k. base ! k # scheduledAt (Suc k) fis) [i..<length base])"
proof (induction base i fis result rule: buildLoop.induct)
  case (1 base i fis result)
  show ?case
  proof (cases "i < length base")
    case False
    then show ?thesis by (simp add: buildLoop.simps [of base i])
  next
    case True
    obtain pushed fis1 where ins: "insertDue (int (Suc i)) fis = (pushed, fis1)"
      by (cases "insertDue (int (Suc i)) fis")
    have p: "pushed = scheduledAt (Suc i) fis"
      using insertDue_fst [OF "1.prems"] ins by simp
    have a1: "\<forall>f\<in>set fis1. armed (Suc i) f"
      using insertDue_armed [OF "1.prems"] ins by simp
    have s1: "\<And>k. scheduledAt k fis1 = scheduledAt k fis"
      using insertDue_scheduledAt [of _ "int (Suc i)" fis] ins by simp
    have ins': "(pushed, fis1) = insertDue (int (i + 1)) fis"
      using ins by simp
    have a1': "\<forall>f\<in>set fis1. armed (i + 1) f"
      using a1 by simp
    have ih: "buildLoop base (Suc i) fis1 ((result @ [base ! i]) @ pushed) =
                ((result @ [base ! i]) @ pushed) @
                concat (map (\<lambda>k. base ! k # scheduledAt (Suc k) fis1) [Suc i..<length base])"
      using "1.IH" [OF True refl refl refl ins' a1'] by simp
    have ups: "[i..<length base] = i # [Suc i..<length base]"
      using True by (simp add: upt_conv_Cons)
    have "buildLoop base i fis result = buildLoop base (Suc i) fis1 ((result @ [base ! i]) @ pushed)"
      using True ins by (simp add: buildLoop.simps [of base i])
    also note ih
    finally show ?thesis by (simp add: s1 ups p)
  qed
qed

lemma shuffleLoop_length: "length (shuffleLoop rnd i xs) = length xs"
  by (induction i arbitrary: xs) (simp_all add: Let_def)

lemma shuffleArray_length: "length (shuffleArray rnd xs) = length xs"
  by (simp add: shuffleArray_def shuffleLoop_length)

lemma shuffleLoop_set: "i < length xs \<Longrightarrow> set (shuffleLoop rnd i xs) = set xs"
proof (induction i arbitrary: xs)
  case 0
  show ?case by simp
next
  case (Suc i)
  define j where "j = rnd (Suc i) mod (Suc i + 1)"
  have j: "j < length xs" using Suc.prems by (simp add: j_def less_Suc_eq_le) (meson Suc.prems le_less_trans less_Suc_eq_le mod_less_divisor zero_less_Suc)
  have sw: "set (xs[Suc i := xs ! j, j := xs ! Suc i]) = set xs"
    using set_swap [OF Suc.prems j] .
  have "set (shuffleLoop rnd i (xs[Suc i := xs ! j, j := xs ! Suc i])) =
        set (xs[Suc i := xs ! j, j := xs ! Suc i])"
    using Suc.prems by (intro Suc.IH) simp
  with sw show ?case by (simp add: Let_def j_def)
qed

lemma shuffleArray_set: "set (shuffleArray rnd xs) = set xs"
proof (cases xs)
  case Nil
  then show ?thesis by (simp add: shuffleArray_def)
next
  case (Cons x ys)
  then show ?thesis by (simp add: shuffleArray_def shuffleLoop_set)
qed

lemma shuffledBase_length:
  "length (shuffledBase rnd streams shuffle) = length (collectBaseItems streams)"
  by (simp add: shuffledBase_def shuffleArray_length)

lemma shuffledBase_set:
  "set (shuffledBase rnd streams shuffle) = set (collectBaseItems streams)"
  by (simp add: shuffledBase_def shuffleArray_set)

lemma collectBaseItems_length:
  "length (collectBaseItems streams) = (\<Sum>s\<leftarrow>slideshowStreams streams. length (items s))"
  by (simp add: collectBaseItems_def length_concat comp_def)

lemma prepared_armed: "\<forall>f\<in>set (prepareFrequencyItems streams). armed 0 f"
  by (auto simp: prepareFrequencyItems_def streamFrequencyItems_def armed_def Let_def)

lemma buildPlaybackSequence_blocks:
  "buildPlaybackSequence rnd streams shuffle =
     (if collectBaseItems streams = [] then allEnhancedItems streams
      else concat (map (\<lambda>k. shuffledBase rnd streams shuffle ! k #
                             scheduledAt (Suc k) (prepareFrequencyItems streams))
                       [0..<length (collectBaseItems streams)]))"
proof (cases "collectBaseItems streams = []")
  case True
  then show ?thesis by (simp add: buildPlaybackSequence_def)
next
  case False
  have ne: "length (shuffledBase rnd streams shuffle) \<noteq> 0"
    using False by (simp add: shuffledBase_length)
  have "buildPlaybackSequence rnd streams shuffle =
          (if length (shuffledBase rnd streams shuffle) = 0 then allEnhancedItems streams
           else buildLoop (shuffledBase rnd streams shuffle) 0 (prepareFrequencyItems streams) [])"
    by (simp add: buildPlaybackSequence_def shuffledBase_def Let_def)
  with ne have "buildPlaybackSequence rnd streams shuffle =
          buildLoop (shuffledBase rnd streams shuffle) 0 (prepareFrequencyItems streams) []"
    by (simp only: if_False)
  then show ?thesis
    using False
      buildLoop_blocks [where fis = "prepareFrequencyItems streams" and i = 0 and result = "[]"
                          and base = "shuffledBase rnd streams shuffle", OF prepared_armed]
    by (simp add: shuffledBase_length)
qed

lemma multiples_upto:
  assumes "0 < F"
  shows "(\<Sum>k\<leftarrow>[0..<N]. if int (Suc k) mod F = 0 then 1 else 0) = int N div F"
proof -
  define m where "m = nat F"
  have F: "F = int m" and m: "0 < m"
    using assms by (simp_all add: m_def)
  have "(\<Sum>k\<leftarrow>[0..<N]. if Suc k mod m = 0 then 1 else 0) = int (N div m)"
    by (induction N) (simp_all add: div_Suc)
  moreover have "\<And>k. (int (Suc k) mod F = 0) = (Suc k mod m = 0)"
    unfolding F by (metis of_nat_mod of_nat_eq_0_iff)
  ultimately show ?thesis by (simp add: F zdiv_int)
qed

lemma scheduled_total:
  "(\<Sum>k\<leftarrow>[0..<N]. int (length (scheduledAt (Suc k) fis))) =
   (\<Sum>f\<leftarrow>fis. if 0 < freq f then int N div freq f else 0)"
proof (induction fis)
  case Nil
  show ?case by (simp add: scheduledAt_def)
next
  case (Cons f fis)
  have split: "\<And>k. int (length (scheduledAt (Suc k) (f # fis))) =
      (if 0 < freq f \<and> int (Suc k) mod freq f = 0 then 1 else 0) +
      int (length (scheduledAt (Suc k) fis))"
    by (simp add: scheduledAt_def)
  have one: "(\<Sum>k\<leftarrow>[0..<N]. if 0 < freq f \<and> int (Suc k) mod freq f = 0 then 1 else 0) =
             (if 0 < freq f then int N div freq f else 0)"
  proof (cases "0 < freq f")
    case True
    have "(\<lambda>k. if 0 < freq f \<and> int (Suc k) mod freq f = 0 then 1 else 0) =
          (\<lambda>k. if int (Suc k) mod freq f = 0 then 1 else (0::int))"
      using True by simp
    then show ?thesis by (simp only: multiples_upto [OF True] True if_True)
  next
    case False
    then show ?thesis by simp
  qed
  have "(\<Sum>k\<leftarrow>[0..<N]. int (length (scheduledAt (Suc k) (f # fis)))) =
        (\<Sum>k\<leftarrow>[0..<N]. (if 0 < freq f \<and> int (Suc k) mod freq f = 0 then 1 else 0) +
                        int (length (scheduledAt (Suc k) fis)))"
    by (simp only: split)
  also have "\<dots> = (\<Sum>k\<leftarrow>[0..<N]. if 0 < freq f \<and> int (Suc k) mod freq f = 0 then 1 else 0) +
                  (\<Sum>k\<leftarrow>[0..<N]. int (length (scheduledAt (Suc k) fis)))"
    by (rule sum_list_addf)
  also have "\<dots> = (if 0 < freq f then int N div freq f else 0) +
                  (\<Sum>f\<leftarrow>fis. if 0 < freq f then int N div freq f else 0)"
    by (simp only: one Cons.IH)
  finally show ?case by simp
qed

lemma blocks_length:
  "int (length (concat (map (\<lambda>k. base ! k # scheduledAt (Suc k) fis) [0..<N]))) =
   int N + (\<Sum>f\<leftarrow>fis. if 0 < freq f then int N div freq f else 0)"
proof -
  have "int (length (concat (map (\<lambda>k. base ! k # scheduledAt (Suc k) fis) [0..<N]))) =
        (\<Sum>k\<leftarrow>[0..<N]. 1 + int (length (scheduledAt (Suc k) fis)))"
    by (induction N) simp_all
  also have "\<dots> = int N + (\<Sum>k\<leftarrow>[0..<N]. int (length (scheduledAt (Suc k) fis)))"
    by (simp add: sum_list_addf sum_list_triv)
  finally show ?thesis by (simp add: scheduled_total)
qed

lemma prepared_total:
  "(\<Sum>f\<leftarrow>prepareFrequencyItems streams. g (freq f)) =
   (\<Sum>s\<leftarrow>frequencyStreams streams. int (length (items s)) * g (streamFrequency s))"
proof -
  have one: "\<And>s. (\<Sum>f\<leftarrow>streamFrequencyItems s. g (freq f)) =
                  int (length (items s)) * g (streamFrequency s)"
    by (simp add: streamFrequencyItems_def Let_def comp_def sum_list_triv)
  have "\<And>ss. (\<Sum>f\<leftarrow>concat (map streamFrequencyItems ss). g (freq f)) =
             (\<Sum>s\<leftarrow>ss. int (length (items s)) * g (streamFrequency s))"
  proof -
    fix ss show "(\<Sum>f\<leftarrow>concat (map streamFrequencyItems ss). g (freq f)) =
             (\<Sum>s\<leftarrow>ss. int (length (items s)) * g (streamFrequency s))"
      by (induction ss) (simp_all add: one)
  qed
  then show ?thesis
    by (simp add: prepareFrequencyItems_def)
qed

lemma itemFrequency_enhance: "itemFrequency (enhance s it) = streamFrequency s"
  by (simp add: itemFrequency_def enhance_def streamFrequency_def)

lemma streamType_enhance: "streamType (enhance s it) = stream_type s"
  by (simp add: enhance_def)

lemma base_streamType:
  "e \<in> set (collectBaseItems streams) \<Longrightarrow> streamType e = Slideshow"
  by (auto simp: collectBaseItems_def slideshowStreams_def streamType_enhance)

lemma frequencyStreams_type:
  "s \<in> set (frequencyStreams streams) \<Longrightarrow> stream_type s \<noteq> Slideshow"
  by (auto simp: frequencyStreams_def singlePhotoStreams_def videoStreams_def)

lemma prepared_origin:
  "f \<in> set (prepareFrequencyItems streams) \<Longrightarrow>
   \<exists>s\<in>set (frequencyStreams streams). \<exists>it\<in>set (items s).
      item f = enhance s it \<and> freq f = streamFrequency s"
  by (fastforce simp: prepareFrequencyItems_def streamFrequencyItems_def Let_def split: if_splits)

lemma prepared_member:
  assumes "s \<in> set (frequencyStreams streams)" and "it \<in> set (items s)"
  shows "\<exists>f\<in>set (prepareFrequencyItems streams). item f = enhance s it \<and> freq f = streamFrequency s"
proof -
  define f0 where "f0 = \<lparr> item = enhance s it, freq = streamFrequency s,
                            nextInsertAt = streamFrequency s, itemIndex = 0 \<rparr>"
  from assms(2) have "length (items s) > 0" by (cases "items s") simp_all
  then have "f0 \<in> set (streamFrequencyItems s)"
    using assms(2) by (simp add: streamFrequencyItems_def Let_def f0_def)
  with assms(1) have "f0 \<in> set (prepareFrequencyItems streams)"
    by (auto simp: prepareFrequencyItems_def)
  moreover have "item f0 = enhance s it \<and> freq f0 = streamFrequency s"
    by (simp add: f0_def)
  ultimately show ?thesis by blast
qed

lemma prepared_freq:
  "f \<in> set (prepareFrequencyItems streams) \<Longrightarrow> freq f = itemFrequency (item f)"
  using prepared_origin [of f streams] by (auto simp: itemFrequency_enhance)

lemma scheduledAt_member:
  assumes "s \<in> set (frequencyStreams streams)" and "it \<in> set (items s)"
  shows "enhance s it \<in> set (scheduledAt k (prepareFrequencyItems streams)) \<longleftrightarrow>
         0 < streamFrequency s \<and> int k mod streamFrequency s = 0"
proof
  assume "enhance s it \<in> set (scheduledAt k (prepareFrequencyItems streams))"
  then obtain f where f: "f \<in> set (prepareFrequencyItems streams)" "item f = enhance s it"
      "0 < freq f" "int k mod freq f = 0"
    by (auto simp: scheduledAt_def)
  from prepared_freq [OF f(1)] f(2) have "freq f = streamFrequency s"
    by (simp add: itemFrequency_enhance)
  with f show "0 < streamFrequency s \<and> int k mod streamFrequency s = 0" by simp
next
  assume r: "0 < streamFrequency s \<and> int k mod streamFrequency s = 0"
  from prepared_member [OF assms] obtain f where
    "f \<in> set (prepareFrequencyItems streams)" "item f = enhance s it" "freq f = streamFrequency s"
    by blast
  with r show "enhance s it \<in> set (scheduledAt k (prepareFrequencyItems streams))"
    by (force simp: scheduledAt_def)
qed

lemma interstitial_not_base:
  assumes "s \<in> set (frequencyStreams streams)"
  shows "enhance s it \<notin> set (shuffledBase rnd streams shuffle)"
proof
  assume "enhance s it \<in> set (shuffledBase rnd streams shuffle)"
  then have "streamType (enhance s it) = Slideshow"
    by (simp add: shuffledBase_set base_streamType)
  with frequencyStreams_type [OF assms] show False by (simp add: streamType_enhance)
qed

lemma multiple_positions:
  assumes "0 < F" and "1 \<le> k" and "k \<le> N"
  shows "int k mod F = 0 \<longleftrightarrow> (\<exists>j. 1 \<le> j \<and> j \<le> int N div F \<and> int k = j * F)"
proof
  assume m: "int k mod F = 0"
  then have eq: "int k = (int k div F) * F" by (simp add: mod_eq_0_iff_dvd)
  have "int k div F \<le> int N div F" using assms by (simp add: zdiv_mono1)
  moreover have "1 \<le> int k div F"
  proof (rule ccontr)
    assume "\<not> 1 \<le> int k div F"
    moreover have "0 \<le> int k div F" using assms by (simp add: pos_imp_zdiv_nonneg_iff)
    ultimately have "int k div F = 0" by simp
    with eq assms show False by simp
  qed
  ultimately show "\<exists>j. 1 \<le> j \<and> j \<le> int N div F \<and> int k = j * F" using eq by blast
next
  assume "\<exists>j. 1 \<le> j \<and> j \<le> int N div F \<and> int k = j * F"
  then show "int k mod F = 0" by auto
qed

lemma blocks_count:
  assumes "\<forall>k<N. base ! k \<noteq> e"
  shows "int (count_list (concat (map (\<lambda>k. base ! k # scheduledAt (Suc k) fis) [0..<N])) e) =
         (\<Sum>k\<leftarrow>[0..<N]. int (count_list (scheduledAt (Suc k) fis) e))"
  using assms by (induction N) simp_all

lemma single_item_prepared:
  assumes "frequencyStreams streams = [s]" and "items s = [it]"
  shows "prepareFrequencyItems streams =
           [\<lparr> item = enhance s it, freq = streamFrequency s,
              nextInsertAt = streamFrequency s, itemIndex = 0 \<rparr>]"
  using assms by (simp add: prepareFrequencyItems_def streamFrequencyItems_def Let_def)

lemma single_item_count:
  assumes "frequencyStreams streams = [s]" and "items s = [it]"
    and "collectBaseItems streams \<noteq> []" and "0 < streamFrequency s"
  shows "int (count_list (buildPlaybackSequence rnd streams shuffle) (enhance s it)) =
           int (length (collectBaseItems streams)) div streamFrequency s"
proof -
  let ?N = "length (collectBaseItems streams)"
  let ?base = "shuffledBase rnd streams shuffle"
  let ?e = "enhance s it"
  have mem: "s \<in> set (frequencyStreams streams)" using assms(1) by simp
  have nb: "\<forall>k<?N. ?base ! k \<noteq> ?e"
  proof (intro allI impI)
    fix k assume "k < ?N"
    then have "?base ! k \<in> set ?base" by (simp add: shuffledBase_length)
    with interstitial_not_base [OF mem, of it rnd shuffle] show "?base ! k \<noteq> ?e" by auto
  qed
  have sch: "\<And>k. int (count_list (scheduledAt (Suc k) (prepareFrequencyItems streams)) ?e) =
               (if int (Suc k) mod streamFrequency s = 0 then 1 else 0)"
    using assms(4) by (simp add: single_item_prepared [OF assms(1,2)] scheduledAt_def)
  have "int (count_list (buildPlaybackSequence rnd streams shuffle) ?e) =
        (\<Sum>k\<leftarrow>[0..<?N]. int (count_list (scheduledAt (Suc k) (prepareFrequencyItems streams)) ?e))"
    using assms(3) blocks_count [OF nb, of "prepareFrequencyItems streams"]
    by (simp add: buildPlaybackSequence_blocks)
  also have "\<dots> = (\<Sum>k\<leftarrow>[0..<?N]. if int (Suc k) mod streamFrequency s = 0 then 1 else 0)"
    by (simp only: sch)
  also have "\<dots> = int ?N div streamFrequency s"
    by (rule multiples_upto [OF assms(4)])
  finally show ?thesis .
qed

lemma enhance_playedItem: "enhance s it = playedItem s it"
  by (cases it) (simp add: enhance_def playedItem_def streamItem.defs enhancedStreamItem.defs)

lemma streamFrequency_configured: "streamFrequency s = configuredFrequency s"
  by (simp add: streamFrequency_def configuredFrequency_def split: option.splits setting.splits)

lemma kind_cases: "stream_type s \<noteq> Slideshow \<longleftrightarrow> stream_type s = SinglePhoto \<or> stream_type s = Video"
  by (cases "stream_type s") simp_all

lemma frequencyStreams_set:
  "set (frequencyStreams streams) = {s \<in> set streams. stream_type s \<noteq> Slideshow}"
  by (auto simp: frequencyStreams_def singlePhotoStreams_def videoStreams_def kind_cases)

lemma sum_filter: "(\<Sum>x\<leftarrow>filter P xs. g x) = (\<Sum>x\<leftarrow>xs. if P x then g x else (0::int))"
  by (induction xs) simp_all

lemma frequencyStreams_sum:
  "(\<Sum>s\<leftarrow>frequencyStreams streams. (g s :: int)) =
   (\<Sum>s\<leftarrow>streams. if stream_type s \<noteq> Slideshow then g s else 0)"
proof -
  have "(\<Sum>s\<leftarrow>frequencyStreams streams. g s) =
        (\<Sum>s\<leftarrow>streams. if stream_type s = SinglePhoto then g s else 0) +
        (\<Sum>s\<leftarrow>streams. if stream_type s = Video then g s else 0)"
    by (simp add: frequencyStreams_def singlePhotoStreams_def videoStreams_def sum_filter)
  also have "\<dots> = (\<Sum>s\<leftarrow>streams. (if stream_type s = SinglePhoto then g s else 0) +
                              (if stream_type s = Video then g s else 0))"
    by (simp add: sum_list_addf)
  also have "\<dots> = (\<Sum>s\<leftarrow>streams. if stream_type s \<noteq> Slideshow then g s else 0)"
    by (intro arg_cong [where f = sum_list] map_cong refl) (auto simp: kind_cases)
  finally show ?thesis .
qed

lemma primaryCount_length: "primaryCount streams = length (collectBaseItems streams)"
proof -
  have "(\<Sum>s\<leftarrow>filter (\<lambda>s. stream_type s = Slideshow) streams. length (items s)) =
        (\<Sum>s\<leftarrow>streams. if stream_type s = Slideshow then length (items s) else 0)"
    by (induction streams) simp_all
  then show ?thesis
    by (simp add: primaryCount_def collectBaseItems_length slideshowStreams_def)
qed

lemma single_interstitial:
  assumes "interstitialStreams streams = [s]"
  shows "frequencyStreams streams = [s]"
proof -
  let ?P = "\<lambda>s. stream_type s \<noteq> Slideshow"
  have s: "stream_type s \<noteq> Slideshow"
    using assms filter_set [of ?P streams] by (auto simp: interstitialStreams_def)
  have sp: "filter (\<lambda>s. stream_type s = SinglePhoto) streams =
            filter (\<lambda>s. stream_type s = SinglePhoto) (filter ?P streams)"
    by (simp add: filter_filter) (rule filter_cong, auto)
  have v: "filter (\<lambda>s. stream_type s = Video) streams =
           filter (\<lambda>s. stream_type s = Video) (filter ?P streams)"
    by (simp add: filter_filter) (rule filter_cong, auto)
  have f: "filter ?P streams = [s]" using assms by (simp add: interstitialStreams_def)
  show ?thesis
    using s by (cases "stream_type s")
      (simp_all add: frequencyStreams_def singlePhotoStreams_def videoStreams_def sp v f)
qed

lemma runs_skip:
  "\<forall>x\<in>set r. \<not> isBaseItem x \<Longrightarrow> runsAfterBase (r @ rest) = runsAfterBase rest"
  by (induction r) simp_all

lemma runs_pairs:
  assumes "\<forall>(b, r)\<in>set ps. isBaseItem b \<and> (\<forall>x\<in>set r. \<not> isBaseItem x)"
  shows "runsAfterBase (concat (map (\<lambda>(b, r). b # r) ps)) = map snd ps
         \<and> filter isBaseItem (concat (map (\<lambda>(b, r). b # r) ps)) = map fst ps"
  using assms
proof (induction ps)
  case Nil
  show ?case by simp
next
  case (Cons p ps)
  obtain b r where p: "p = (b, r)" by (cases p)
  from Cons.prems p have b: "isBaseItem b" and r: "\<forall>x\<in>set r. \<not> isBaseItem x"
    and rest: "\<forall>(b, r)\<in>set ps. isBaseItem b \<and> (\<forall>x\<in>set r. \<not> isBaseItem x)"
    by auto
  let ?rest = "concat (map (\<lambda>(b, r). b # r) ps)"
  have tw: "takeWhile (\<lambda>x. \<not> isBaseItem x) ?rest = []"
  proof (cases ps)
    case Nil
    then show ?thesis by simp
  next
    case (Cons q qs)
    obtain b' r' where q: "q = (b', r')" by (cases q)
    with Cons rest have "isBaseItem b'" by auto
    with Cons q show ?thesis by simp
  qed
  have "takeWhile (\<lambda>x. \<not> isBaseItem x) (r @ ?rest) = r"
    using r tw by (simp add: takeWhile_append2)
  moreover have "filter isBaseItem r = []" using r by (simp add: filter_empty_conv)
  ultimately show ?case
    using Cons.IH [OF rest] b r p by (simp add: runs_skip)
qed

lemma scheduled_not_base:
  "x \<in> set (scheduledAt k (prepareFrequencyItems streams)) \<Longrightarrow> \<not> isBaseItem x"
proof -
  assume "x \<in> set (scheduledAt k (prepareFrequencyItems streams))"
  then obtain f where "f \<in> set (prepareFrequencyItems streams)" "x = item f"
    by (auto simp: scheduledAt_def)
  with prepared_origin [of f streams] obtain s it where
    "s \<in> set (frequencyStreams streams)" "x = enhance s it" by auto
  with frequencyStreams_type [of s streams] show ?thesis
    by (simp add: isBaseItem_def streamType_enhance)
qed

lemma output_runs:
  assumes "collectBaseItems streams \<noteq> []"
  shows "runsAfterBase (buildPlaybackSequence rnd streams shuffle) =
           map (\<lambda>k. scheduledAt (Suc k) (prepareFrequencyItems streams))
               [0..<length (collectBaseItems streams)]"
    and "filter isBaseItem (buildPlaybackSequence rnd streams shuffle) =
           shuffledBase rnd streams shuffle"
proof -
  let ?N = "length (collectBaseItems streams)"
  let ?base = "shuffledBase rnd streams shuffle"
  let ?fis = "prepareFrequencyItems streams"
  let ?ps = "map (\<lambda>k. (?base ! k, scheduledAt (Suc k) ?fis)) [0..<?N]"
  have out: "buildPlaybackSequence rnd streams shuffle = concat (map (\<lambda>(b, r). b # r) ?ps)"
    using assms by (simp add: buildPlaybackSequence_blocks comp_def)
  have ok: "\<forall>(b, r)\<in>set ?ps. isBaseItem b \<and> (\<forall>x\<in>set r. \<not> isBaseItem x)"
  proof -
    have "isBaseItem (?base ! k)" if "k < ?N" for k
    proof -
      from that have "?base ! k \<in> set ?base" by (simp add: shuffledBase_length)
      then show ?thesis by (simp add: shuffledBase_set base_streamType isBaseItem_def)
    qed
    then show ?thesis by (auto dest: scheduled_not_base)
  qed
  from runs_pairs [OF ok] out
  show "runsAfterBase (buildPlaybackSequence rnd streams shuffle) =
           map (\<lambda>k. scheduledAt (Suc k) ?fis) [0..<?N]"
    by (simp add: comp_def)
  have "map fst ?ps = map (\<lambda>k. ?base ! k) [0..<?N]" by (simp add: comp_def)
  also have "\<dots> = ?base"
    using map_nth [of ?base] by (simp add: shuffledBase_length)
  finally show "filter isBaseItem (buildPlaybackSequence rnd streams shuffle) = ?base"
    using runs_pairs [OF ok] out by simp
qed

lemma length_over_frequencyStreams:
  assumes N: "N = length (collectBaseItems streams)"
    and F: "\<forall>s\<in>set (frequencyStreams streams). 1 \<le> streamFrequency s \<and> streamFrequency s \<le> int N"
  shows "int (length (buildPlaybackSequence rnd streams shuffle)) =
           int N + (\<Sum>s\<leftarrow>frequencyStreams streams.
                      int (length (items s)) * (int N div streamFrequency s))"
proof (cases "collectBaseItems streams = []")
  case True
  with N have N0: "N = 0" by simp
  with F have "frequencyStreams streams = []"
    by (cases "frequencyStreams streams") auto
  with True N0 show ?thesis
    by (simp add: buildPlaybackSequence_blocks allEnhancedItems_def)
next
  case False
  have "int (length (buildPlaybackSequence rnd streams shuffle)) =
          int N + (\<Sum>f\<leftarrow>prepareFrequencyItems streams.
                      if 0 < freq f then int N div freq f else 0)"
    using False by (simp add: buildPlaybackSequence_blocks N [symmetric] blocks_length)
  also have "(\<Sum>f\<leftarrow>prepareFrequencyItems streams. if 0 < freq f then int N div freq f else 0) =
             (\<Sum>s\<leftarrow>frequencyStreams streams. int (length (items s)) *
                 (if 0 < streamFrequency s then int N div streamFrequency s else 0))"
    by (rule prepared_total [where g = "\<lambda>x. if 0 < x then int N div x else 0"])
  also have "\<dots> = (\<Sum>s\<leftarrow>frequencyStreams streams.
                    int (length (items s)) * (int N div streamFrequency s))"
    using F by (intro arg_cong [where f = sum_list] map_cong refl) auto
  finally show ?thesis .
qed

text \<open>
  Claim C1. Let \<open>N\<close> be the total number of items of the primary (slideshow) streams. If
  the configured frequency \<open>F\<close> of every interstitial stream, single-photo or video,
  satisfies \<open>1 \<le> F \<le> N\<close>, the built sequence has length \<open>N\<close> plus, for every item of every
  interstitial stream, \<open>N div F\<close> for its stream's frequency. With a single interstitial
  stream holding a single item the length is \<open>N + N div F\<close> and that item occurs exactly
  \<open>N div F\<close> times. This holds with and without shuffling, whatever the random draws.
\<close>

theorem sequence_length:
  assumes F: "\<forall>s\<in>set streams. stream_type s \<noteq> Slideshow \<longrightarrow>
                1 \<le> configuredFrequency s \<and> configuredFrequency s \<le> int (primaryCount streams)"
  shows "int (length (buildPlaybackSequence rnd streams shuffle)) =
           int (primaryCount streams) +
           (\<Sum>s\<leftarrow>streams. if stream_type s \<noteq> Slideshow
                        then int (length (items s)) *
                             (int (primaryCount streams) div configuredFrequency s)
                        else 0)
         \<and> (\<forall>s it. interstitialStreams streams = [s] \<and> items s = [it] \<longrightarrow>
              int (length (buildPlaybackSequence rnd streams shuffle)) =
                int (primaryCount streams) + int (primaryCount streams) div configuredFrequency s
              \<and> int (count_list (buildPlaybackSequence rnd streams shuffle) (playedItem s it)) =
                int (primaryCount streams) div configuredFrequency s)"
proof -
  let ?N = "primaryCount streams"
  have len: "?N = length (collectBaseItems streams)" by (rule primaryCount_length)
  have eq: "streamFrequency = configuredFrequency"
    by (rule ext) (rule streamFrequency_configured)
  have F': "\<forall>s\<in>set (frequencyStreams streams). 1 \<le> streamFrequency s \<and> streamFrequency s \<le> int ?N"
    using F by (simp add: frequencyStreams_set streamFrequency_configured)
  have main: "int (length (buildPlaybackSequence rnd streams shuffle)) =
           int ?N + (\<Sum>s\<leftarrow>streams. if stream_type s \<noteq> Slideshow
                        then int (length (items s)) * (int ?N div configuredFrequency s)
                        else 0)"
    using length_over_frequencyStreams [OF len F', of rnd shuffle]
      frequencyStreams_sum [of "\<lambda>s. int (length (items s)) * (int ?N div streamFrequency s)" streams]
    unfolding eq by simp
  have single: "int (length (buildPlaybackSequence rnd streams shuffle)) =
                  int ?N + int ?N div configuredFrequency s
                \<and> int (count_list (buildPlaybackSequence rnd streams shuffle) (playedItem s it)) =
                  int ?N div configuredFrequency s"
    if s: "interstitialStreams streams = [s]" and it: "items s = [it]" for s it
  proof -
    have fs: "frequencyStreams streams = [s]" by (rule single_interstitial [OF s])
    from F' fs have pos: "0 < streamFrequency s" and le: "streamFrequency s \<le> int ?N" by simp_all
    then have "0 < ?N" by simp
    with len have ne: "collectBaseItems streams \<noteq> []" by auto
    have c: "int (count_list (buildPlaybackSequence rnd streams shuffle) (playedItem s it)) =
               int ?N div configuredFrequency s"
      using single_item_count [OF fs it ne pos, of rnd shuffle] len
      by (simp add: enhance_playedItem streamFrequency_configured)
    have "int (length (buildPlaybackSequence rnd streams shuffle)) =
            int ?N + int ?N div configuredFrequency s"
      using length_over_frequencyStreams [OF len F', of rnd shuffle]
      by (simp add: fs it streamFrequency_configured)
    with c show ?thesis by simp
  qed
  from main single show ?thesis by blast
qed

text \<open>
  Six photos with a video clip at the wrapped frequency 3 and a single photo at frequency
  2: eleven entries, shuffled or not. Five photos with the single photo at frequency 2
  alone: the photo occurs twice.
\<close>

theorem sequence_length_witness:
  "primaryCount mixedStreams = 6
   \<and> configuredFrequency (videoStream 3) = 3
   \<and> configuredFrequency (interstitialStream 2) = 2
   \<and> buildPlaybackSequence noShuffleDraws mixedStreams False =
       [playedPhoto 6 1, playedPhoto 6 2, playedAd 2, playedPhoto 6 3, playedClip 3,
        playedPhoto 6 4, playedAd 2, playedPhoto 6 5, playedPhoto 6 6, playedAd 2, playedClip 3]
   \<and> int (length (buildPlaybackSequence noShuffleDraws mixedStreams False)) = 6 + (6 div 3 + 6 div 2)
   \<and> int (length (buildPlaybackSequence noShuffleDraws mixedStreams True)) = 6 + (6 div 3 + 6 div 2)
   \<and> interstitialStreams [primaryStream 5, interstitialStream 2] = [interstitialStream 2]
   \<and> items (interstitialStream 2) = [photo ''s2'' 1]
   \<and> int (count_list (buildPlaybackSequence noShuffleDraws
                         [primaryStream 5, interstitialStream 2] False) (playedAd 2)) = 5 div 2"
proof -
  have n: "primaryCount mixedStreams = 6"
    by (simp add: primaryCount_def mixedStreams_def videoStream_def primaryStream_def
        interstitialStream_def)
  have fv: "configuredFrequency (videoStream 3) = 3"
    by (simp add: configuredFrequency_def videoStream_def)
  have fa: "configuredFrequency (interstitialStream 2) = 2"
    by (simp add: configuredFrequency_def interstitialStream_def)
  have kinds: "stream_type (videoStream 3) = Video" "stream_type (primaryStream 6) = Slideshow"
    "stream_type (interstitialStream 2) = SinglePhoto" "stream_type (primaryStream 5) = Slideshow"
    by (simp_all add: videoStream_def primaryStream_def interstitialStream_def)
  have lens: "length (items (videoStream 3)) = 1" "length (items (interstitialStream 2)) = 1"
    by (simp_all add: videoStream_def interstitialStream_def)
  have hyp: "\<forall>s\<in>set mixedStreams. stream_type s \<noteq> Slideshow \<longrightarrow>
               1 \<le> configuredFrequency s \<and> configuredFrequency s \<le> int (primaryCount mixedStreams)"
    by (simp add: n) (simp add: mixedStreams_def kinds fv fa)
  have ev: "buildPlaybackSequence noShuffleDraws mixedStreams False =
       [playedPhoto 6 1, playedPhoto 6 2, playedAd 2, playedPhoto 6 3, playedClip 3,
        playedPhoto 6 4, playedAd 2, playedPhoto 6 5, playedPhoto 6 6, playedAd 2, playedClip 3]"
    by code_simp
  have total: "(\<Sum>s\<leftarrow>mixedStreams. if stream_type s \<noteq> Slideshow
                        then int (length (items s)) *
                             (int (primaryCount mixedStreams) div configuredFrequency s)
                        else 0) = 6 div 3 + 6 div 2"
  proof -
    have n': "primaryCount [videoStream 3, primaryStream 6, interstitialStream 2] = 6"
      using n by (simp add: mixedStreams_def)
    show ?thesis by (simp add: mixedStreams_def kinds fv fa lens n')
  qed
  have l1: "int (length (buildPlaybackSequence noShuffleDraws mixedStreams False)) = 6 + (6 div 3 + 6 div 2)"
    using conjunct1 [OF sequence_length [OF hyp, of noShuffleDraws False]]
    by (simp only: total) (simp add: n)
  have l2: "int (length (buildPlaybackSequence noShuffleDraws mixedStreams True)) = 6 + (6 div 3 + 6 div 2)"
    using conjunct1 [OF sequence_length [OF hyp, of noShuffleDraws True]]
    by (simp only: total) (simp add: n)
  have n5: "primaryCount [primaryStream 5, interstitialStream 2] = 5"
    by (simp add: primaryCount_def primaryStream_def interstitialStream_def)
  have one: "interstitialStreams [primaryStream 5, interstitialStream 2] = [interstitialStream 2]"
    by (simp add: interstitialStreams_def kinds)
  have its: "items (interstitialStream 2) = [photo ''s2'' 1]"
    by (simp add: interstitialStream_def)
  have hyp5: "\<forall>s\<in>set [primaryStream 5, interstitialStream 2]. stream_type s \<noteq> Slideshow \<longrightarrow>
               1 \<le> configuredFrequency s
               \<and> configuredFrequency s \<le> int (primaryCount [primaryStream 5, interstitialStream 2])"
    by (simp add: n5 kinds fa)
  have c: "int (count_list (buildPlaybackSequence noShuffleDraws
                         [primaryStream 5, interstitialStream 2] False) (playedAd 2)) = 5 div 2"
    using conjunct2 [OF sequence_length [OF hyp5, of noShuffleDraws False], rule_format,
        of "interstitialStream 2" "photo ''s2'' 1"] one its
    by (simp add: n5 fa playedAd_def)
  from n fv fa ev l1 l2 one its c show ?thesis by blast
qed

text \<open>
  Claim C2, as the code behaves. The loop is a total function (its termination is proved
  with the definition of \<open>buildLoop\<close>, and no division occurs), so the sequencer returns
  for every frequency. An interstitial stream whose frequency is 0 or negative is not
  inserted at every position: when there is at least one base item, none of its items
  occurs anywhere in the built sequence.
\<close>

theorem nonpositive_frequency_never_inserted:
  assumes "collectBaseItems streams \<noteq> []"
    and "s \<in> set (frequencyStreams streams)"
    and "streamFrequency s \<le> 0"
  shows "enhance s it \<notin> set (buildPlaybackSequence rnd streams shuffle)"
proof
  assume "enhance s it \<in> set (buildPlaybackSequence rnd streams shuffle)"
  then obtain k where k: "k < length (collectBaseItems streams)"
    and m: "enhance s it = shuffledBase rnd streams shuffle ! k \<or>
            enhance s it \<in> set (scheduledAt (Suc k) (prepareFrequencyItems streams))"
    using assms(1) by (auto simp: buildPlaybackSequence_blocks)
  from k have "shuffledBase rnd streams shuffle ! k \<in> set (shuffledBase rnd streams shuffle)"
    by (simp add: shuffledBase_length)
  with interstitial_not_base [OF assms(2), of it rnd shuffle] m
  have "enhance s it \<in> set (scheduledAt (Suc k) (prepareFrequencyItems streams))" by auto
  then obtain f where f: "f \<in> set (prepareFrequencyItems streams)" "item f = enhance s it"
      "0 < freq f"
    by (auto simp: scheduledAt_def)
  from prepared_freq [OF f(1)] f(2) have "freq f = streamFrequency s"
    by (simp add: itemFrequency_enhance)
  with f(3) assms(3) show False by simp
qed

theorem nonpositive_frequency_never_inserted_witness:
  "collectBaseItems [primaryStream 2, interstitialStream 0] \<noteq> []
   \<and> interstitialStream 0 \<in> set (frequencyStreams [primaryStream 2, interstitialStream 0])
   \<and> streamFrequency (interstitialStream 0) \<le> 0
   \<and> adItem 0 \<notin> set (buildPlaybackSequence noShuffleDraws
                          [primaryStream 2, interstitialStream 0] False)"
proof -
  have b: "collectBaseItems [primaryStream 2, interstitialStream 0] \<noteq> []"
    by (simp add: collectBaseItems_def slideshowStreams_def primaryStream_def)
  have fs: "interstitialStream 0 \<in> set (frequencyStreams [primaryStream 2, interstitialStream 0])"
    by (simp add: frequencyStreams_def singlePhotoStreams_def videoStreams_def
        primaryStream_def interstitialStream_def)
  have fr: "streamFrequency (interstitialStream 0) \<le> 0"
    by (simp add: streamFrequency_def interstitialStream_def)
  from nonpositive_frequency_never_inserted [OF b fs fr, of "photo ''s2'' 1" noShuffleDraws False]
  have "adItem 0 \<notin> set (buildPlaybackSequence noShuffleDraws
                          [primaryStream 2, interstitialStream 0] False)"
    by (simp add: adItem_def)
  with b fs fr show ?thesis by blast
qed

text \<open>
  Two base items and one interstitial item at frequency 0: the sequence is the two base
  items alone, not the base items each followed by the interstitial item.
\<close>

theorem zero_frequency_counterexample:
  "buildPlaybackSequence noShuffleDraws [primaryStream 2, interstitialStream 0] False =
     [baseItem 2 1, baseItem 2 2]
   \<and> buildPlaybackSequence noShuffleDraws [primaryStream 2, interstitialStream 0] False \<noteq>
     [baseItem 2 1, adItem 0, baseItem 2 2, adItem 0]"
proof -
  have "buildPlaybackSequence noShuffleDraws [primaryStream 2, interstitialStream 0] False =
     [baseItem 2 1, baseItem 2 2]"
    by code_simp
  then show ?thesis by simp
qed

text \<open>
  Claim C5. With a non-empty base of \<open>N\<close> primary items and an item of an interstitial
  stream, single-photo or video, whose configured frequency \<open>F\<close> satisfies \<open>1 \<le> F \<le> N\<close>:
  the built sequence holds exactly \<open>N\<close> base items, starts with one, and so consists of
  the base items each followed by its run of interstitial entries; the item is not a base
  item, and it lies in the run that directly follows the \<open>k\<close>-th base item exactly when
  \<open>k\<close> is one of \<open>F, 2F, \<dots>, (N div F) * F\<close>. When it is the only interstitial item, that
  run is the item alone at those positions and empty at the others. Where several
  interstitial items are due after the same base item they share the run.
\<close>

theorem insertion_positions:
  assumes base: "0 < primaryCount streams"
    and s: "s \<in> set streams" and kind: "stream_type s \<noteq> Slideshow"
    and it: "it \<in> set (items s)"
    and lo: "1 \<le> configuredFrequency s"
    and hi: "configuredFrequency s \<le> int (primaryCount streams)"
  shows "length (filter isBaseItem (buildPlaybackSequence rnd streams shuffle)) = primaryCount streams
       \<and> length (runsAfterBase (buildPlaybackSequence rnd streams shuffle)) = primaryCount streams
       \<and> buildPlaybackSequence rnd streams shuffle \<noteq> []
       \<and> isBaseItem (hd (buildPlaybackSequence rnd streams shuffle))
       \<and> \<not> isBaseItem (playedItem s it)
       \<and> (\<forall>k. 1 \<le> k \<and> k \<le> primaryCount streams \<longrightarrow>
             (playedItem s it \<in> set (runsAfterBase (buildPlaybackSequence rnd streams shuffle) ! (k - 1))
              \<longleftrightarrow> (\<exists>j. 1 \<le> j \<and> j \<le> int (primaryCount streams) div configuredFrequency s
                       \<and> int k = j * configuredFrequency s)))
       \<and> (interstitialStreams streams = [s] \<and> items s = [it] \<longrightarrow>
            (\<forall>k. 1 \<le> k \<and> k \<le> primaryCount streams \<longrightarrow>
               runsAfterBase (buildPlaybackSequence rnd streams shuffle) ! (k - 1) =
                 (if int k mod configuredFrequency s = 0 then [playedItem s it] else [])))"
proof -
  let ?N = "primaryCount streams"
  let ?out = "buildPlaybackSequence rnd streams shuffle"
  let ?fis = "prepareFrequencyItems streams"
  let ?F = "configuredFrequency s"
  have len: "?N = length (collectBaseItems streams)" by (rule primaryCount_length)
  with base have ne: "collectBaseItems streams \<noteq> []" by auto
  have mem: "s \<in> set (frequencyStreams streams)"
    using s kind by (simp add: frequencyStreams_set)
  have pos: "0 < streamFrequency s" using lo by (simp add: streamFrequency_configured)
  have runs: "runsAfterBase ?out = map (\<lambda>k. scheduledAt (Suc k) ?fis) [0..<?N]"
    using output_runs(1) [OF ne, of rnd shuffle] len by simp
  have bases: "filter isBaseItem ?out = shuffledBase rnd streams shuffle"
    by (rule output_runs(2) [OF ne])
  have run_k: "runsAfterBase ?out ! (k - 1) = scheduledAt k ?fis" if "1 \<le> k" "k \<le> ?N" for k
  proof -
    from that have lt: "k - 1 < ?N" by simp
    from that have "Suc (k - 1) = k" by simp
    with lt show ?thesis by (simp add: runs del: One_nat_def)
  qed
  have c1: "length (filter isBaseItem ?out) = ?N"
    by (simp add: bases shuffledBase_length len)
  have c2: "length (runsAfterBase ?out) = ?N" by (simp add: runs)
  have c3: "?out \<noteq> []" using c1 base by auto
  have c4: "isBaseItem (hd ?out)"
  proof -
    have "[0..<length (collectBaseItems streams)] = 0 # [1..<length (collectBaseItems streams)]"
      using ne by (simp add: upt_conv_Cons)
    then have "hd ?out = shuffledBase rnd streams shuffle ! 0"
      using ne by (simp add: buildPlaybackSequence_blocks)
    moreover have "shuffledBase rnd streams shuffle ! 0 \<in> set (shuffledBase rnd streams shuffle)"
      using ne by (simp add: shuffledBase_length)
    ultimately show ?thesis
      by (simp add: shuffledBase_set base_streamType isBaseItem_def)
  qed
  have c5: "\<not> isBaseItem (playedItem s it)"
    using kind streamType_enhance [of s it] by (simp add: isBaseItem_def enhance_playedItem)
  have c6: "playedItem s it \<in> set (runsAfterBase ?out ! (k - 1))
              \<longleftrightarrow> (\<exists>j. 1 \<le> j \<and> j \<le> int ?N div ?F \<and> int k = j * ?F)"
    if "1 \<le> k \<and> k \<le> ?N" for k
    using that scheduledAt_member [OF mem it, of k] pos
      multiple_positions [OF pos, of k ?N] run_k [of k]
    by (simp add: enhance_playedItem streamFrequency_configured)
  have c7: "runsAfterBase ?out ! (k - 1) = (if int k mod ?F = 0 then [playedItem s it] else [])"
    if one: "interstitialStreams streams = [s] \<and> items s = [it]" and k: "1 \<le> k \<and> k \<le> ?N" for k
  proof -
    from one have fs: "frequencyStreams streams = [s]" by (simp add: single_interstitial)
    from one have "?fis = [\<lparr> item = enhance s it, freq = streamFrequency s,
                              nextInsertAt = streamFrequency s, itemIndex = 0 \<rparr>]"
      by (simp add: single_item_prepared [OF fs])
    then show ?thesis
      using k run_k [of k] pos
      by (simp add: scheduledAt_def enhance_playedItem streamFrequency_configured)
  qed
  from c1 c2 c3 c4 c5 c6 c7 show ?thesis by blast
qed

text \<open>
  The video clip at frequency 3 among six photos follows the third base item and not the
  fourth; and the instance \<open>N = 20\<close>, \<open>F = 5\<close> with one interstitial item: it appears
  after base items 5, 10, 15 and 20, four insertions.
\<close>

theorem insertion_positions_witness:
  "0 < primaryCount mixedStreams
   \<and> videoStream 3 \<in> set mixedStreams
   \<and> stream_type (videoStream 3) \<noteq> Slideshow
   \<and> clip \<in> set (items (videoStream 3))
   \<and> 1 \<le> configuredFrequency (videoStream 3)
   \<and> configuredFrequency (videoStream 3) \<le> int (primaryCount mixedStreams)
   \<and> playedClip 3 \<in> set (runsAfterBase (buildPlaybackSequence noShuffleDraws mixedStreams False) ! (3 - 1))
   \<and> playedClip 3 \<notin> set (runsAfterBase (buildPlaybackSequence noShuffleDraws mixedStreams False) ! (4 - 1))
   \<and> runsAfterBase (buildPlaybackSequence noShuffleDraws mixedStreams False) =
       [[], [playedAd 2], [playedClip 3], [playedAd 2], [], [playedAd 2, playedClip 3]]
   \<and> interstitialStreams [primaryStream 20, interstitialStream 5] = [interstitialStream 5]
   \<and> runsAfterBase (buildPlaybackSequence noShuffleDraws
                       [primaryStream 20, interstitialStream 5] False) ! (5 - 1) = [playedAd 5]
   \<and> runsAfterBase (buildPlaybackSequence noShuffleDraws
                       [primaryStream 20, interstitialStream 5] False) ! (6 - 1) = []
   \<and> buildPlaybackSequence noShuffleDraws [primaryStream 20, interstitialStream 5] False =
       map (playedPhoto 20) [1..<6] @ [playedAd 5] @ map (playedPhoto 20) [6..<11] @ [playedAd 5] @
       map (playedPhoto 20) [11..<16] @ [playedAd 5] @ map (playedPhoto 20) [16..<21] @ [playedAd 5]"
proof -
  have n: "primaryCount mixedStreams = 6"
    by (simp add: primaryCount_def mixedStreams_def videoStream_def primaryStream_def
        interstitialStream_def)
  have b: "0 < primaryCount mixedStreams" by (simp add: n)
  have m: "videoStream 3 \<in> set mixedStreams" by (simp add: mixedStreams_def)
  have k: "stream_type (videoStream 3) \<noteq> Slideshow" by (simp add: videoStream_def)
  have i: "clip \<in> set (items (videoStream 3))" by (simp add: videoStream_def)
  have fv: "configuredFrequency (videoStream 3) = 3"
    by (simp add: configuredFrequency_def videoStream_def)
  have lo: "1 \<le> configuredFrequency (videoStream 3)" by (simp add: fv)
  have hi: "configuredFrequency (videoStream 3) \<le> int (primaryCount mixedStreams)"
    by (simp add: fv n)
  note t = insertion_positions [OF b m k i lo hi, of noShuffleDraws False]
  from t have allk: "\<forall>k. 1 \<le> k \<and> k \<le> primaryCount mixedStreams \<longrightarrow>
      (playedItem (videoStream 3) clip \<in>
         set (runsAfterBase (buildPlaybackSequence noShuffleDraws mixedStreams False) ! (k - 1))
       \<longleftrightarrow> (\<exists>j. 1 \<le> j \<and> j \<le> int (primaryCount mixedStreams) div configuredFrequency (videoStream 3)
                \<and> int k = j * configuredFrequency (videoStream 3)))"
    by blast
  from allk [rule_format, of 3] have at3: "playedItem (videoStream 3) clip \<in>
      set (runsAfterBase (buildPlaybackSequence noShuffleDraws mixedStreams False) ! (3 - 1))
      \<longleftrightarrow> (\<exists>j. 1 \<le> j \<and> j \<le> int (primaryCount mixedStreams) div 3 \<and> int 3 = j * 3)"
    by (simp add: n fv)
  have "\<exists>j::int. 1 \<le> j \<and> j \<le> int (primaryCount mixedStreams) div 3 \<and> int 3 = j * 3"
    by (rule exI [of _ 1]) (simp add: n)
  with at3 have in3: "playedClip 3 \<in>
      set (runsAfterBase (buildPlaybackSequence noShuffleDraws mixedStreams False) ! (3 - 1))"
    by (simp add: playedClip_def)
  from allk [rule_format, of 4] have at4: "playedItem (videoStream 3) clip \<in>
      set (runsAfterBase (buildPlaybackSequence noShuffleDraws mixedStreams False) ! (4 - 1))
      \<longleftrightarrow> (\<exists>j. 1 \<le> j \<and> j \<le> int (primaryCount mixedStreams) div 3 \<and> int 4 = j * 3)"
    by (simp add: n fv)
  have "\<not> (\<exists>j::int. 1 \<le> j \<and> j \<le> int (primaryCount mixedStreams) div 3 \<and> int 4 = j * 3)"
    by (simp add: n) presburger
  with at4 have out4: "playedClip 3 \<notin>
      set (runsAfterBase (buildPlaybackSequence noShuffleDraws mixedStreams False) ! (4 - 1))"
    by (simp add: playedClip_def)
  have runs: "runsAfterBase (buildPlaybackSequence noShuffleDraws mixedStreams False) =
       [[], [playedAd 2], [playedClip 3], [playedAd 2], [], [playedAd 2, playedClip 3]]"
    by code_simp
  have n20: "primaryCount [primaryStream 20, interstitialStream 5] = 20"
    by (simp add: primaryCount_def primaryStream_def interstitialStream_def)
  have one: "interstitialStreams [primaryStream 20, interstitialStream 5] = [interstitialStream 5]"
    by (simp add: interstitialStreams_def primaryStream_def interstitialStream_def)
  have its: "items (interstitialStream 5) = [photo ''s2'' 1]"
    by (simp add: interstitialStream_def)
  have f5: "configuredFrequency (interstitialStream 5) = 5"
    by (simp add: configuredFrequency_def interstitialStream_def)
  have b20: "0 < primaryCount [primaryStream 20, interstitialStream 5]" by (simp add: n20)
  have m20: "interstitialStream 5 \<in> set [primaryStream 20, interstitialStream 5]" by simp
  have k20: "stream_type (interstitialStream 5) \<noteq> Slideshow" by (simp add: interstitialStream_def)
  have i20: "photo ''s2'' 1 \<in> set (items (interstitialStream 5))" by (simp add: its)
  have lo20: "1 \<le> configuredFrequency (interstitialStream 5)" by (simp add: f5)
  have hi20: "configuredFrequency (interstitialStream 5)
                \<le> int (primaryCount [primaryStream 20, interstitialStream 5])"
    by (simp add: f5 n20)
  note t20 = insertion_positions [OF b20 m20 k20 i20 lo20 hi20, of noShuffleDraws False]
  from t20 one its have all20: "\<forall>k. 1 \<le> k \<and> k \<le> primaryCount [primaryStream 20, interstitialStream 5] \<longrightarrow>
       runsAfterBase (buildPlaybackSequence noShuffleDraws
                       [primaryStream 20, interstitialStream 5] False) ! (k - 1) =
         (if int k mod configuredFrequency (interstitialStream 5) = 0
          then [playedItem (interstitialStream 5) (photo ''s2'' 1)] else [])"
    by blast
  from all20 [rule_format, of 5] have r5: "runsAfterBase (buildPlaybackSequence noShuffleDraws
                       [primaryStream 20, interstitialStream 5] False) ! (5 - 1) = [playedAd 5]"
    by (simp add: n20 f5 playedAd_def)
  from all20 [rule_format, of 6] have r6: "runsAfterBase (buildPlaybackSequence noShuffleDraws
                       [primaryStream 20, interstitialStream 5] False) ! (6 - 1) = []"
    by (simp add: n20 f5)
  have ev: "buildPlaybackSequence noShuffleDraws [primaryStream 20, interstitialStream 5] False =
       map (playedPhoto 20) [1..<6] @ [playedAd 5] @ map (playedPhoto 20) [6..<11] @ [playedAd 5] @
       map (playedPhoto 20) [11..<16] @ [playedAd 5] @ map (playedPhoto 20) [16..<21] @ [playedAd 5]"
    by code_simp
  from b m k i lo hi in3 out4 runs one r5 r6 ev show ?thesis by blast
qed

section \<open>Properties of the display command reducer and of controller liveness\<close>

text \<open>
  Which closure is subscribed: with \<^verbatim>\<open>const\<close> lowered to \<^verbatim>\<open>var\<close> it is the first
  render's, however many renders follow, so every remote command is handled for an empty
  list with looping off; with \<^verbatim>\<open>const\<close> as written no handler is subscribed at all.
\<close>

lemma subscribedClosure_lowered:
  "subscribedClosure ConstLoweredToVar (c # later) = Some c"
proof -
  have "runRenders ConstLoweredToVar (Some c) (Some DepUndefined) later = Some c" for later
    by (induction later) (simp_all add: handleCommandDep_def)
  then show ?thesis by (simp add: subscribedClosure_def handleCommandDep_def)
qed

lemma subscribedClosure_as_written:
  "subscribedClosure ConstAsWritten (c # later) = None"
  by (simp add: subscribedClosure_def handleCommandDep_def)

lemma receiveCommand_stale:
  "receiveCommand ConstLoweredToVar (rendersOf L loop) command st =
     Some (handleCommand 0 False command st)"
  by (simp add: receiveCommand_def rendersOf_def subscribedClosure_lowered mountClosure_def)

text \<open>
  The bodies of the handlers, for the length and loop flag they are applied to: on a
  non-empty list \<^verbatim>\<open>next\<close> at the last index wraps to 0 with looping on and pauses in
  place with looping off, \<^verbatim>\<open>previous\<close> at 0 wraps to the last index, and the six playback
  commands and the two local handlers keep the index in range.
\<close>

lemma handleCommand_wraparound:
  assumes "0 < L"
  shows "(currentIndex st = int L - 1 \<longrightarrow>
            fst (handleCommand L True ''next'' st) = st\<lparr>currentIndex := 0\<rparr> \<and>
            fst (handleCommand L False ''next'' st) = st\<lparr>isPlaying := False\<rparr>)
         \<and> (currentIndex st = 0 \<longrightarrow>
              (\<forall>loop. fst (handleCommand L loop ''previous'' st) = st\<lparr>currentIndex := int L - 1\<rparr>))"
  by (simp add: handleCommand_def Let_def)

lemma handlers_keep_index_range:
  assumes "0 < L" and "indexInRange L st" and "command \<in> set playbackCommands"
  shows "indexInRange L (fst (handleCommand L loop command st))
         \<and> indexInRange L (handleNext L loop st)
         \<and> indexInRange L (handlePrevious L st)"
  using assms
  by (auto simp: indexInRange_def handleCommand_def handleNext_def handlePrevious_def
      playbackCommands_def Let_def)



text \<open>
  Claim C10. With an empty item list and the current index at 0, the remote
  \<^verbatim>\<open>previous\<close> command sets the current index to -1, outside every range, while the
  local \<^verbatim>\<open>handlePrevious\<close> returns without changing the state.
\<close>

theorem previous_on_empty_list:
  assumes "currentIndex st = 0"
  shows "currentIndex (fst (handleCommand 0 loop ''previous'' st)) = - 1
         \<and> \<not> indexInRange 0 (fst (handleCommand 0 loop ''previous'' st))
         \<and> handlePrevious 0 st = st"
  using assms by (simp add: handleCommand_def handlePrevious_def indexInRange_def Let_def)

theorem previous_on_empty_list_witness:
  "currentIndex initialPreviewState = 0
   \<and> currentIndex (fst (handleCommand 0 False ''previous'' initialPreviewState)) = - 1
   \<and> handlePrevious 0 initialPreviewState = initialPreviewState"
proof -
  have z: "currentIndex initialPreviewState = 0" by (simp add: initialPreviewState_def)
  from previous_on_empty_list [OF z, of False] z show ?thesis by simp
qed

lemma runTicks_lastHeartbeat: "lastHeartbeat (runTicks start n st) = lastHeartbeat st"
  by (induction n) (simp_all add: pollTick_def Let_def split: option.splits)

lemma pollTick_derivation:
  assumes "lastHeartbeat st = Some t" and "t \<noteq> 0"
  shows "isPreviewActive (pollTick now st) = (now - t < livenessTimeoutMs)"
  using assms by (simp add: pollTick_def Let_def)

lemma runTicks_derivation:
  assumes "lastHeartbeat st = Some t" and "t \<noteq> 0" and "0 < n"
  shows "isPreviewActive (runTicks start n st) =
           (start + pollIntervalMs * int n - t < livenessTimeoutMs)"
proof -
  from assms(3) obtain m where n: "n = Suc m" by (cases n) simp_all
  have "lastHeartbeat (runTicks start m st) = Some t"
    by (simp add: runTicks_lastHeartbeat assms(1))
  from pollTick_derivation [OF this assms(2)] show ?thesis
    by (simp add: n)
qed

lemma runTicks_never: "\<not> isPreviewActive (runTicks start n initialControllerState)"
proof (induction n)
  case 0
  show ?case by (simp add: initialControllerState_def)
next
  case (Suc n)
  have "lastHeartbeat (runTicks start n initialControllerState) = None"
    by (simp add: runTicks_lastHeartbeat initialControllerState_def)
  with Suc show ?case by (simp add: pollTick_def)
qed

text \<open>
  Claim C7, as the code behaves. The controller stores the timestamp carried in the
  heartbeat's payload, not the time of receipt. For a heartbeat with a non-zero
  timestamp: its arrival marks the display active; a poll tick at controller time \<open>now\<close>
  sets the flag to \<open>now - timestamp < 10000\<close>; with the 1-second interval started at
  \<open>start\<close> and no further heartbeat, the flag after the \<open>n\<close>-th tick is
  \<open>start + 1000 * n - timestamp < 10000\<close>, there is a tick at which at least 10 seconds
  have elapsed and the flag is false, and once a tick has made it false every later tick
  leaves it false. A controller that never received a heartbeat stays inactive at every
  tick.
\<close>

theorem liveness_from_heartbeat_timestamp:
  assumes "timestamp \<noteq> 0"
  shows "isPreviewActive (onHeartbeat timestamp st)
    \<and> isPreviewActive (pollTick now (onHeartbeat timestamp st)) = (now - timestamp < livenessTimeoutMs)
    \<and> (\<forall>n. 0 < n \<longrightarrow>
          isPreviewActive (runTicks start n (onHeartbeat timestamp st)) =
            (start + pollIntervalMs * int n - timestamp < livenessTimeoutMs))
    \<and> (\<exists>n. 0 < n \<and> livenessTimeoutMs \<le> start + pollIntervalMs * int n - timestamp
             \<and> \<not> isPreviewActive (runTicks start n (onHeartbeat timestamp st)))
    \<and> (\<forall>n m. 0 < n \<and> n \<le> m
              \<and> \<not> isPreviewActive (runTicks start n (onHeartbeat timestamp st)) \<longrightarrow>
              \<not> isPreviewActive (runTicks start m (onHeartbeat timestamp st)))
    \<and> (\<forall>n. \<not> isPreviewActive (runTicks start n initialControllerState))"
proof -
  have lh: "lastHeartbeat (onHeartbeat timestamp st) = Some timestamp"
    by (simp add: onHeartbeat_def)
  have d: "\<And>n. 0 < n \<Longrightarrow>
          isPreviewActive (runTicks start n (onHeartbeat timestamp st)) =
            (start + pollIntervalMs * int n - timestamp < livenessTimeoutMs)"
    by (rule runTicks_derivation [OF lh assms])
  have a: "isPreviewActive (onHeartbeat timestamp st)" by (simp add: onHeartbeat_def)
  have b: "isPreviewActive (pollTick now (onHeartbeat timestamp st)) = (now - timestamp < livenessTimeoutMs)"
    by (rule pollTick_derivation [OF lh assms])
  define n0 where "n0 = Suc (nat (livenessTimeoutMs + timestamp - start))"
  have "livenessTimeoutMs + timestamp - start \<le> int n0" by (simp add: n0_def)
  also have "int n0 \<le> pollIntervalMs * int n0" by (simp add: pollIntervalMs_def)
  finally have e0: "livenessTimeoutMs \<le> start + pollIntervalMs * int n0 - timestamp" by simp
  have "0 < n0" by (simp add: n0_def)
  with e0 d [of n0] have e: "\<exists>n. 0 < n \<and> livenessTimeoutMs \<le> start + pollIntervalMs * int n - timestamp
             \<and> \<not> isPreviewActive (runTicks start n (onHeartbeat timestamp st))"
    by (intro exI [of _ n0]) simp
  have m: "\<forall>n m. 0 < n \<and> n \<le> m
              \<and> \<not> isPreviewActive (runTicks start n (onHeartbeat timestamp st)) \<longrightarrow>
              \<not> isPreviewActive (runTicks start m (onHeartbeat timestamp st))"
  proof (intro allI impI)
    fix n m
    assume h: "0 < n \<and> n \<le> m \<and> \<not> isPreviewActive (runTicks start n (onHeartbeat timestamp st))"
    then have "livenessTimeoutMs \<le> start + pollIntervalMs * int n - timestamp"
      using d [of n] by simp
    moreover have "pollIntervalMs * int n \<le> pollIntervalMs * int m"
      using h by (simp add: pollIntervalMs_def)
    ultimately have "livenessTimeoutMs \<le> start + pollIntervalMs * int m - timestamp" by simp
    moreover have "0 < m" using h by simp
    ultimately show "\<not> isPreviewActive (runTicks start m (onHeartbeat timestamp st))"
      using d [of m] by simp
  qed
  from a b d e m runTicks_never show ?thesis by blast
qed

theorem liveness_from_heartbeat_timestamp_witness:
  "(1000::int) \<noteq> 0
   \<and> isPreviewActive (runTicks 1000 9 (onHeartbeat 1000 initialControllerState))
   \<and> \<not> isPreviewActive (runTicks 1000 10 (onHeartbeat 1000 initialControllerState))
   \<and> \<not> isPreviewActive (runTicks 1000 11 (onHeartbeat 1000 initialControllerState))"
proof -
  have nz: "(1000::int) \<noteq> 0" by simp
  from liveness_from_heartbeat_timestamp [OF nz, of initialControllerState 0 1000]
  have "\<forall>n. 0 < n \<longrightarrow>
          isPreviewActive (runTicks 1000 n (onHeartbeat 1000 initialControllerState)) =
            (1000 + pollIntervalMs * int n - 1000 < livenessTimeoutMs)"
    by blast
  then have "isPreviewActive (runTicks 1000 9 (onHeartbeat 1000 initialControllerState))"
    and "\<not> isPreviewActive (runTicks 1000 10 (onHeartbeat 1000 initialControllerState))"
    and "\<not> isPreviewActive (runTicks 1000 11 (onHeartbeat 1000 initialControllerState))"
    by (simp_all add: pollIntervalMs_def livenessTimeoutMs_def)
  then show ?thesis by simp
qed

text \<open>
  A heartbeat stamped 1000 by the display and received at controller time 20000: one
  second later the derivation from the receipt time says active, and the controller's
  tick says inactive.
\<close>

theorem receipt_time_counterexample:
  "specDisplayActive 21000 20000
   \<and> \<not> isPreviewActive (pollTick 21000 (onHeartbeat 1000 initialControllerState))"
  by (simp add: specDisplayActive_def pollTick_def onHeartbeat_def initialControllerState_def
      livenessTimeoutMs_def)

section \<open>Properties of the channel services\<close>

lemmas service_defs =
  sendCommand_def broadcastStatus_def sendHeartbeat_def
  subscribeToCommands_def subscribeToStatus_def subscribeToHeartbeat_def
  getCommandChannel_def getStatusChannel_def getHeartbeatChannel_def
  newChannel_def awaitJoin_def emit_def Let_def newEffects_def

lemma sendCommand_topics:
  assumes "cacheNamed (commandChannels w)"
  shows "list_all (onTopic (commandChannelName sid) ''command'')
           (newEffects w (snd (sendCommand sid c dbError reply w)))"
  using assms
  by (auto simp: service_defs cacheNamed_def split: option.splits prod.splits if_splits)

lemma subscribeToCommands_topics:
  assumes "cacheNamed (commandChannels w)"
  shows "list_all (onTopic (commandChannelName sid) ''command'')
           (newEffects w (subscribeToCommands sid r w))"
  using assms
  by (auto simp: service_defs cacheNamed_def split: option.splits prod.splits if_splits)

lemma broadcastStatus_topics:
  assumes "cacheNamed (statusChannels w)"
  shows "list_all (onTopic (statusChannelName sid) ''status'')
           (newEffects w (snd (broadcastStatus sid reply w)))"
  using assms
  by (auto simp: service_defs cacheNamed_def split: option.splits prod.splits if_splits)

lemma subscribeToStatus_topics:
  assumes "cacheNamed (statusChannels w)"
  shows "list_all (onTopic (statusChannelName sid) ''status'')
           (newEffects w (subscribeToStatus sid r w))"
  using assms
  by (auto simp: service_defs cacheNamed_def split: option.splits prod.splits if_splits)

lemma sendHeartbeat_topics:
  assumes "cacheNamed (heartbeatChannels w)"
  shows "list_all (onTopic (heartbeatChannelName sid) ''heartbeat'')
           (newEffects w (snd (sendHeartbeat sid reply w)))"
  using assms
  by (auto simp: service_defs cacheNamed_def split: option.splits prod.splits if_splits)

lemma subscribeToHeartbeat_topics:
  assumes "cacheNamed (heartbeatChannels w)"
  shows "list_all (onTopic (heartbeatChannelName sid) ''heartbeat'')
           (newEffects w (subscribeToHeartbeat sid r w))"
  using assms
  by (auto simp: service_defs cacheNamed_def split: option.splits prod.splits if_splits)

lemma sendCommand_wellNamed:
  "wellNamed w \<Longrightarrow> wellNamed (snd (sendCommand sid c dbError reply w))"
  by (auto simp: service_defs wellNamed_def cacheNamed_def split: option.splits prod.splits if_splits)

lemma broadcastStatus_wellNamed:
  "wellNamed w \<Longrightarrow> wellNamed (snd (broadcastStatus sid reply w))"
  by (auto simp: service_defs wellNamed_def cacheNamed_def split: option.splits prod.splits if_splits)

lemma sendHeartbeat_wellNamed:
  "wellNamed w \<Longrightarrow> wellNamed (snd (sendHeartbeat sid reply w))"
  by (auto simp: service_defs wellNamed_def cacheNamed_def split: option.splits prod.splits if_splits)

lemma subscribeToCommands_wellNamed:
  "wellNamed w \<Longrightarrow> wellNamed (subscribeToCommands sid r w)"
  by (auto simp: service_defs wellNamed_def cacheNamed_def split: option.splits prod.splits if_splits)

lemma subscribeToStatus_wellNamed:
  "wellNamed w \<Longrightarrow> wellNamed (subscribeToStatus sid r w)"
  by (auto simp: service_defs wellNamed_def cacheNamed_def split: option.splits prod.splits if_splits)

lemma subscribeToHeartbeat_wellNamed:
  "wellNamed w \<Longrightarrow> wellNamed (subscribeToHeartbeat sid r w)"
  by (auto simp: service_defs wellNamed_def cacheNamed_def split: option.splits prod.splits if_splits)

lemma emptyWorld_wellNamed: "wellNamed emptyWorld"
  by (simp add: wellNamed_def cacheNamed_def emptyWorld_def)

text \<open>
  Claim C3, as the code behaves. From any world whose caches hold each channel under its
  own name, every relay call made by a publish or subscribe operation for slideshow
  \<open>sid\<close> uses the topic \<^verbatim>\<open>slideshow:{sid}:commands\<close>, \<^verbatim>\<open>slideshow:{sid}:status\<close> or
  \<^verbatim>\<open>slideshow:{sid}:heartbeat\<close> of its service, with the single event name \<^verbatim>\<open>command\<close>,
  \<^verbatim>\<open>status\<close> or \<^verbatim>\<open>heartbeat\<close>. The prefix is \<^verbatim>\<open>slideshow:\<close>, not \<^verbatim>\<open>session:\<close>.
\<close>

theorem relay_topics:
  assumes "wellNamed w"
  shows "list_all (onTopic (''slideshow:'' @ sid @ '':commands'') ''command'')
           (newEffects w (snd (sendCommand sid c dbError reply w)))
       \<and> list_all (onTopic (''slideshow:'' @ sid @ '':commands'') ''command'')
           (newEffects w (subscribeToCommands sid r w))
       \<and> list_all (onTopic (''slideshow:'' @ sid @ '':status'') ''status'')
           (newEffects w (snd (broadcastStatus sid reply w)))
       \<and> list_all (onTopic (''slideshow:'' @ sid @ '':status'') ''status'')
           (newEffects w (subscribeToStatus sid r w))
       \<and> list_all (onTopic (''slideshow:'' @ sid @ '':heartbeat'') ''heartbeat'')
           (newEffects w (snd (sendHeartbeat sid reply w)))
       \<and> list_all (onTopic (''slideshow:'' @ sid @ '':heartbeat'') ''heartbeat'')
           (newEffects w (subscribeToHeartbeat sid r w))"
proof -
  from assms have c: "cacheNamed (commandChannels w)" and s: "cacheNamed (statusChannels w)"
    and h: "cacheNamed (heartbeatChannels w)"
    by (simp_all add: wellNamed_def)
  show ?thesis
    using sendCommand_topics [OF c, of sid c dbError reply] subscribeToCommands_topics [OF c, of sid r]
      broadcastStatus_topics [OF s, of sid reply] subscribeToStatus_topics [OF s, of sid r]
      sendHeartbeat_topics [OF h, of sid reply] subscribeToHeartbeat_topics [OF h, of sid r]
    by (simp add: commandChannelName_def statusChannelName_def heartbeatChannelName_def)
qed

theorem relay_topics_witness:
  "wellNamed emptyWorld
   \<and> newEffects emptyWorld (snd (sendCommand ''42'' ''next'' False (Some (120, SUBSCRIBED)) emptyWorld)) =
       [DbInsert ''42'' ''next'', CreateChannel ''slideshow:42:commands'' True,
        Subscribe ''slideshow:42:commands'', Send ''slideshow:42:commands'' ''command'']
   \<and> list_all (onTopic ''slideshow:42:commands'' ''command'')
        (newEffects emptyWorld (snd (sendCommand ''42'' ''next'' False (Some (120, SUBSCRIBED)) emptyWorld)))
   \<and> newEffects emptyWorld (subscribeToHeartbeat ''42'' (Some SUBSCRIBED) emptyWorld) =
       [CreateChannel ''slideshow:42:heartbeat'' False, On ''slideshow:42:heartbeat'' ''heartbeat'',
        Subscribe ''slideshow:42:heartbeat'']"
proof -
  have e1: "newEffects emptyWorld (snd (sendCommand ''42'' ''next'' False (Some (120, SUBSCRIBED)) emptyWorld)) =
       [DbInsert ''42'' ''next'', CreateChannel ''slideshow:42:commands'' True,
        Subscribe ''slideshow:42:commands'', Send ''slideshow:42:commands'' ''command'']"
    by (simp add: service_defs emptyWorld_def commandChannelName_def subscriptionTimeoutMs_def)
  have e2: "newEffects emptyWorld (subscribeToHeartbeat ''42'' (Some SUBSCRIBED) emptyWorld) =
       [CreateChannel ''slideshow:42:heartbeat'' False, On ''slideshow:42:heartbeat'' ''heartbeat'',
        Subscribe ''slideshow:42:heartbeat'']"
    by (simp add: service_defs emptyWorld_def heartbeatChannelName_def)
  from relay_topics [OF emptyWorld_wellNamed, of "''42''" "''next''" False "Some (120, SUBSCRIBED)"]
  have "list_all (onTopic ''slideshow:42:commands'' ''command'')
        (newEffects emptyWorld (snd (sendCommand ''42'' ''next'' False (Some (120, SUBSCRIBED)) emptyWorld)))"
    by simp
  with e1 e2 emptyWorld_wellNamed show ?thesis by simp
qed

text \<open>
  Sending \<^verbatim>\<open>next\<close> to slideshow 42 broadcasts on \<^verbatim>\<open>slideshow:42:commands\<close> and on no
  topic named \<^verbatim>\<open>session:42:commands\<close>; the three names of the code differ from the three
  names of the specification.
\<close>

theorem session_topic_counterexample:
  "Send ''slideshow:42:commands'' ''command'' \<in>
     set (newEffects emptyWorld (snd (sendCommand ''42'' ''next'' False (Some (120, SUBSCRIBED)) emptyWorld)))
   \<and> Send (specCommandTopic ''42'') ''command'' \<notin>
     set (newEffects emptyWorld (snd (sendCommand ''42'' ''next'' False (Some (120, SUBSCRIBED)) emptyWorld)))
   \<and> commandChannelName ''42'' \<noteq> specCommandTopic ''42''
   \<and> statusChannelName ''42'' \<noteq> specStatusTopic ''42''
   \<and> heartbeatChannelName ''42'' \<noteq> specHeartbeatTopic ''42''"
  by (simp add: service_defs emptyWorld_def commandChannelName_def statusChannelName_def
      heartbeatChannelName_def specCommandTopic_def specStatusTopic_def specHeartbeatTopic_def
      subscriptionTimeoutMs_def)

text \<open>
  Claim C8, as the code behaves. Every \<^verbatim>\<open>sendCommand\<close> first inserts the command into
  the command log; a failed insert adds one console error and changes nothing else: the
  relay calls that follow, the result and the cache are those of the call whose insert
  succeeded. The broadcast is not made at every invocation: it is made exactly when the
  channel is joined or its join completes before the timeout, whatever the insert
  returned, and it is then the last relay call, on the command channel with event
  \<^verbatim>\<open>command\<close>; when the join fails or times out the call fails without a broadcast.
\<close>

theorem sendCommand_logs_then_broadcasts:
  "\<exists>rest.
     newEffects w (snd (sendCommand sid c False reply w)) = DbInsert sid c # rest
   \<and> newEffects w (snd (sendCommand sid c True reply w)) =
       DbInsert sid c # ConsoleError ''Failed to save command to database:'' # rest
   \<and> fst (sendCommand sid c True reply w) = fst (sendCommand sid c False reply w)
   \<and> commandChannels (snd (sendCommand sid c True reply w)) =
       commandChannels (snd (sendCommand sid c False reply w))
   \<and> (\<forall>dbError. fst (sendCommand sid c dbError reply w) = Inr () \<longleftrightarrow>
         joinCompletes (fst (getCommandChannel sid w)) reply)
   \<and> (joinCompletes (fst (getCommandChannel sid w)) reply \<longrightarrow>
         rest \<noteq> [] \<and> last rest = Send (topic (fst (getCommandChannel sid w))) ''command'')
   \<and> (\<not> joinCompletes (fst (getCommandChannel sid w)) reply \<longrightarrow>
         (\<forall>t e. Send t e \<notin> set rest))"
  by (auto simp: service_defs joinCompletes_def split: option.splits prod.splits if_splits)

theorem sendCommand_logs_then_broadcasts_witness:
  "joinCompletes (fst (getCommandChannel ''42'' emptyWorld)) (Some (120, SUBSCRIBED))
   \<and> fst (sendCommand ''42'' ''next'' True (Some (120, SUBSCRIBED)) emptyWorld) = Inr ()
   \<and> newEffects emptyWorld (snd (sendCommand ''42'' ''next'' True (Some (120, SUBSCRIBED)) emptyWorld)) =
       [DbInsert ''42'' ''next'', ConsoleError ''Failed to save command to database:'',
        CreateChannel ''slideshow:42:commands'' True, Subscribe ''slideshow:42:commands'',
        Send ''slideshow:42:commands'' ''command'']"
proof -
  have j: "joinCompletes (fst (getCommandChannel ''42'' emptyWorld)) (Some (120, SUBSCRIBED))"
    by (simp add: joinCompletes_def subscriptionTimeoutMs_def)
  from sendCommand_logs_then_broadcasts [of emptyWorld "''42''" "''next''" "Some (120, SUBSCRIBED)"] j
  have r: "fst (sendCommand ''42'' ''next'' True (Some (120, SUBSCRIBED)) emptyWorld) = Inr ()"
    by blast
  have e: "newEffects emptyWorld (snd (sendCommand ''42'' ''next'' True (Some (120, SUBSCRIBED)) emptyWorld)) =
       [DbInsert ''42'' ''next'', ConsoleError ''Failed to save command to database:'',
        CreateChannel ''slideshow:42:commands'' True, Subscribe ''slideshow:42:commands'',
        Send ''slideshow:42:commands'' ''command'']"
    by (simp add: service_defs emptyWorld_def commandChannelName_def subscriptionTimeoutMs_def)
  from j r e show ?thesis by simp
qed

text \<open>
  A relay that never answers the join: the command is logged, the channel is created and
  subscribed, the call fails with the timeout and nothing is broadcast.
\<close>

theorem silent_relay_counterexample:
  "fst (sendCommand ''42'' ''next'' False None emptyWorld) = Inl SubscriptionTimeout
   \<and> newEffects emptyWorld (snd (sendCommand ''42'' ''next'' False None emptyWorld)) =
       [DbInsert ''42'' ''next'', CreateChannel ''slideshow:42:commands'' True,
        Subscribe ''slideshow:42:commands'']
   \<and> Send ''slideshow:42:commands'' ''command'' \<notin>
       set (newEffects emptyWorld (snd (sendCommand ''42'' ''next'' False None emptyWorld)))"
  by (simp add: service_defs emptyWorld_def commandChannelName_def)

text \<open>
  The two outcomes of a join that does not complete: a failure status before the timeout
  evicts the handle, the timeout alone keeps it.
\<close>

lemma join_failure_evicts:
  assumes "delay < subscriptionTimeoutMs" and "status \<noteq> SUBSCRIBED"
    and "state (fst (getCommandChannel sid w)) \<noteq> Joined"
  shows "fst (sendCommand sid c dbError (Some (delay, status)) w) = Inl (SubscriptionFailed status)
         \<and> commandChannels (snd (sendCommand sid c dbError (Some (delay, status)) w))
             (commandChannelName sid) = None"
  using assms
  by (auto simp: service_defs split: option.splits prod.splits if_splits)

lemma join_timeout_keeps_handle:
  assumes "reply = None \<or> (\<exists>delay status. reply = Some (delay, status) \<and> subscriptionTimeoutMs \<le> delay)"
    and "state (fst (getCommandChannel sid w)) \<noteq> Joined"
  shows "fst (sendCommand sid c dbError reply w) = Inl SubscriptionTimeout
         \<and> map_option serial (commandChannels (snd (sendCommand sid c dbError reply w))
             (commandChannelName sid)) = Some (serial (fst (getCommandChannel sid w)))"
  using assms
  by (auto simp: service_defs split: option.splits prod.splits if_splits)

text \<open>A failure status that arrives after the timeout evicts what is cached under the name.\<close>

lemma late_failure_status_evicts:
  "status \<noteq> SUBSCRIBED \<Longrightarrow>
   commandChannels (lateJoinStatus commandChannels commandChannels_update name ch status w) name = None"
  by (simp add: lateJoinStatus_def)

text \<open>
  Claim C6 at the failing input: the relay does not answer the join within 5 seconds.
  Each of the three publish calls fails with the timeout error, yet the handle created
  by the call (serial 0) is still cached when the call fails, and the next call creates
  no channel: it subscribes the cached handle again.
\<close>

theorem publish_timeout_keeps_cached_handle:
  "fst (sendCommand ''42'' ''next'' False None emptyWorld) = Inl SubscriptionTimeout
   \<and> map_option serial (commandChannels afterCommandTimeout (commandChannelName ''42'')) = Some 0
   \<and> newEffects afterCommandTimeout (snd (sendCommand ''42'' ''next'' False None afterCommandTimeout)) =
       [DbInsert ''42'' ''next'', Subscribe ''slideshow:42:commands'']
   \<and> fst (broadcastStatus ''42'' None emptyWorld) = Inl SubscriptionTimeout
   \<and> map_option serial (statusChannels afterStatusTimeout (statusChannelName ''42'')) = Some 0
   \<and> newEffects afterStatusTimeout (snd (broadcastStatus ''42'' None afterStatusTimeout)) =
       [Subscribe ''slideshow:42:status'']
   \<and> fst (sendHeartbeat ''42'' None emptyWorld) = Inl SubscriptionTimeout
   \<and> map_option serial (heartbeatChannels afterHeartbeatTimeout (heartbeatChannelName ''42'')) = Some 0
   \<and> newEffects afterHeartbeatTimeout (snd (sendHeartbeat ''42'' None afterHeartbeatTimeout)) =
       [Subscribe ''slideshow:42:heartbeat'']"
  by (simp add: service_defs emptyWorld_def afterCommandTimeout_def afterStatusTimeout_def
      afterHeartbeatTimeout_def commandChannelName_def statusChannelName_def
      heartbeatChannelName_def)

end
